theory Spec2Isabelle
  imports Complex_Main
begin

section \<open>Python values used by the extraction pipeline and the citation engine\<close>

text \<open>
  Strings are character lists; a position is a Python index (an \<open>int\<close> where the
  \<open>-1\<close> of \<open>str.rfind\<close> and negative slice bounds matter). A character is one of the
  code points 0 to 255, and the character classes below are what Python's \<open>str\<close> methods
  and the classes \<open>\s\<close>, \<open>\w\<close>, \<open>\d\<close> of \<open>re\<close> accept among these code points:
  whitespace includes the next-line and the no-break space characters, the word characters
  include the letters, superscript digits and fractions above \<open>0x7F\<close>
  (\<open>is_high_alnum\<close>), and \<open>str.lower\<close> maps the capitals \<open>0xC0\<close> to \<open>0xDE\<close>
  (\<open>high_capitals\<close>) to the small letters 32 places further. The digits \<open>\d\<close> and the
  ranges \<open>[A-Z]\<close> and \<open>[a-z]\<close> hold ASCII characters only. Text with code points above
  255 is outside the model.
\<close>

subsection \<open>Characters and strings\<close>

definition is_space :: "char \<Rightarrow> bool" where
  "is_space c = (c \<in> set [CHR 0x09, CHR 0x0A, CHR 0x0B, CHR 0x0C, CHR 0x0D,
                             CHR 0x1C, CHR 0x1D, CHR 0x1E, CHR 0x1F, CHR '' '',
                             CHR 0x85, CHR 0xA0])"

definition is_digit :: "char \<Rightarrow> bool" where
  "is_digit c = (c \<in> set ''0123456789'')"

definition is_upper :: "char \<Rightarrow> bool" where
  "is_upper c = (c \<in> set ''ABCDEFGHIJKLMNOPQRSTUVWXYZ'')"

definition is_lower :: "char \<Rightarrow> bool" where
  "is_lower c = (c \<in> set ''abcdefghijklmnopqrstuvwxyz'')"

definition is_alpha :: "char \<Rightarrow> bool" where
  "is_alpha c = (is_upper c \<or> is_lower c)"

definition is_high_alnum :: "char \<Rightarrow> bool" where
  "is_high_alnum c =
     (c \<in> set [CHR 0xAA, CHR 0xB2, CHR 0xB3, CHR 0xB5, CHR 0xB9, CHR 0xBA, CHR 0xBC, CHR 0xBD,
                 CHR 0xBE]
      \<or> ((0xC0::nat) \<le> of_char c \<and> c \<noteq> CHR 0xD7 \<and> c \<noteq> CHR 0xF7))"

definition is_word :: "char \<Rightarrow> bool" where
  "is_word c = (is_alpha c \<or> is_digit c \<or> c = CHR ''_'' \<or> is_high_alnum c)"

text \<open>
\<open>str.lower\<close>, \<open>str.strip\<close>, \<open>str.split()\<close> (on whitespace runs) and \<open>sep.join\<close>.
\<close>

definition high_capitals :: string where
  "high_capitals =
     [CHR 0xC0, CHR 0xC1, CHR 0xC2, CHR 0xC3, CHR 0xC4, CHR 0xC5, CHR 0xC6, CHR 0xC7,
      CHR 0xC8, CHR 0xC9, CHR 0xCA, CHR 0xCB, CHR 0xCC, CHR 0xCD, CHR 0xCE, CHR 0xCF,
      CHR 0xD0, CHR 0xD1, CHR 0xD2, CHR 0xD3, CHR 0xD4, CHR 0xD5, CHR 0xD6, CHR 0xD8,
      CHR 0xD9, CHR 0xDA, CHR 0xDB, CHR 0xDC, CHR 0xDD, CHR 0xDE]"

definition high_smalls :: string where
  "high_smalls =
     [CHR 0xE0, CHR 0xE1, CHR 0xE2, CHR 0xE3, CHR 0xE4, CHR 0xE5, CHR 0xE6, CHR 0xE7,
      CHR 0xE8, CHR 0xE9, CHR 0xEA, CHR 0xEB, CHR 0xEC, CHR 0xED, CHR 0xEE, CHR 0xEF,
      CHR 0xF0, CHR 0xF1, CHR 0xF2, CHR 0xF3, CHR 0xF4, CHR 0xF5, CHR 0xF6, CHR 0xF8,
      CHR 0xF9, CHR 0xFA, CHR 0xFB, CHR 0xFC, CHR 0xFD, CHR 0xFE]"

definition lower_char :: "char \<Rightarrow> char" where
  "lower_char c =
     (case map_of (zip (''ABCDEFGHIJKLMNOPQRSTUVWXYZ'' @ high_capitals)
                       (''abcdefghijklmnopqrstuvwxyz'' @ high_smalls)) c of
        Some l \<Rightarrow> l
      | None \<Rightarrow> c)"

definition py_lower :: "string \<Rightarrow> string" where
  "py_lower s = map lower_char s"

definition py_strip :: "string \<Rightarrow> string" where
  "py_strip s = rev (dropWhile is_space (rev (dropWhile is_space s)))"

fun split_ws :: "string \<Rightarrow> string \<Rightarrow> string list" where
  "split_ws cur [] = (if cur = [] then [] else [cur])"
| "split_ws cur (c # cs) =
     (if is_space c then (if cur = [] then split_ws [] cs else cur # split_ws [] cs)
      else split_ws (cur @ [c]) cs)"

definition py_split :: "string \<Rightarrow> string list" where
  "py_split s = split_ws [] s"

fun py_join :: "string \<Rightarrow> string list \<Rightarrow> string" where
  "py_join sep [] = []"
| "py_join sep [x] = x"
| "py_join sep (x # y # ys) = x @ sep @ py_join sep (y # ys)"

text \<open>
  \<open>s.replace(old, new)\<close>: every non-overlapping occurrence, scanning from the left. With
  an empty \<open>old\<close> Python inserts \<open>new\<close> before every character and at the end.
\<close>

fun py_replace :: "string \<Rightarrow> string \<Rightarrow> string \<Rightarrow> string" where
  "py_replace old new s =
     (if old = [] then new @ concat (map (\<lambda>c. c # new) s)
      else if s = [] then []
      else if take (length old) s = old then new @ py_replace old new (drop (length old) s)
      else hd s # py_replace old new (tl s))"

text \<open>
\<open>str(n)\<close> for a non-negative integer: its decimal digits.
\<close>

fun str_nat :: "nat \<Rightarrow> string" where
  "str_nat n = (if n < 10 then [''0123456789'' ! n]
                else str_nat (n div 10) @ [''0123456789'' ! (n mod 10)])"

text \<open>
\<open>xs[:m]\<close> (a negative bound counts from the end) and \<open>xs[i:j]\<close> for indices in range.
\<close>

definition py_slice_to :: "int \<Rightarrow> 'a list \<Rightarrow> 'a list" where
  "py_slice_to m xs =
     (if 0 \<le> m then take (nat m) xs else take (nat (int (length xs) + m)) xs)"

definition py_slice :: "nat \<Rightarrow> nat \<Rightarrow> 'a list \<Rightarrow> 'a list" where
  "py_slice i j xs = take (j - i) (drop i xs)"

text \<open>
\<open>s.rfind(c)\<close> for a one-character needle: the highest index, or \<open>-1\<close>.
\<close>

fun py_rfind :: "'a \<Rightarrow> 'a list \<Rightarrow> int" where
  "py_rfind c [] = - 1"
| "py_rfind c (x # xs) =
     (let r = py_rfind c xs in if 0 \<le> r then r + 1 else if x = c then 0 else - 1)"

text \<open>
  \<open>str.splitlines\<close> (a carriage return followed by a line feed is one break; a final
  break opens no further line) and \<open>str.split("  ")\<close> on the two-space separator.
\<close>

definition is_linebreak :: "char \<Rightarrow> bool" where
  "is_linebreak c =
     (c \<in> set [CHR 0x0A, CHR 0x0D, CHR 0x0B, CHR 0x0C, CHR 0x1C, CHR 0x1D, CHR 0x1E, CHR 0x85])"

fun splitlines_acc :: "string \<Rightarrow> string \<Rightarrow> string list" where
  "splitlines_acc cur [] = (if cur = [] then [] else [cur])"
| "splitlines_acc cur (c # cs) =
     (if c = CHR 0x0D \<and> take 1 cs = [CHR 0x0A] then cur # splitlines_acc [] (drop 1 cs)
      else if is_linebreak c then cur # splitlines_acc [] cs
      else splitlines_acc (cur @ [c]) cs)"

definition py_splitlines :: "string \<Rightarrow> string list" where
  "py_splitlines s = splitlines_acc [] s"

fun split_spaces2 :: "string \<Rightarrow> string \<Rightarrow> string list" where
  "split_spaces2 cur (a # b # cs) =
     (if a = CHR '' '' \<and> b = CHR '' '' then cur # split_spaces2 [] cs
      else split_spaces2 (cur @ [a]) (b # cs))"
| "split_spaces2 cur [a] = [cur @ [a]]"
| "split_spaces2 cur [] = [cur]"

subsection \<open>Exceptions\<close>

text \<open>
  A raised exception is a value. \<open>ValueError\<close> is what \<open>urlparse\<close> and
  \<open>add_citation\<close> raise; \<open>LibraryError\<close> stands for whatever the HTTP and parsing
  libraries raise. \<open>exn_str\<close> is \<open>str(e)\<close>.
\<close>

datatype exn = ValueError string | LibraryError string

fun exn_str :: "exn \<Rightarrow> string" where
  "exn_str (ValueError m) = m"
| "exn_str (LibraryError m) = m"

subsection \<open>Dictionaries\<close>

text \<open>
  A \<open>dict\<close> keeps its keys in insertion order, and two of the claims depend on that order,
  so a dictionary is an association list: assigning to a present key replaces the value in
  place, assigning to a new key appends.
\<close>

definition dict_keys :: "('k \<times> 'v) list \<Rightarrow> 'k list" where
  "dict_keys d = map fst d"

definition dict_values :: "('k \<times> 'v) list \<Rightarrow> 'v list" where
  "dict_values d = map snd d"

definition dict_get :: "('k \<times> 'v) list \<Rightarrow> 'k \<Rightarrow> 'v option" where
  "dict_get d k = map_of d k"

fun dict_set :: "('k \<times> 'v) list \<Rightarrow> 'k \<Rightarrow> 'v \<Rightarrow> ('k \<times> 'v) list" where
  "dict_set [] k v = [(k, v)]"
| "dict_set ((k', v') # d) k v = (if k' = k then (k', v) # d else (k', v') # dict_set d k v)"

subsection \<open>Regular expressions\<close>

text \<open>
  The patterns of the source are kept as data and run by a backtracking matcher with the
  priorities of Python's \<open>re\<close>: \<open>rx_ends r s i\<close> lists the end positions of the matches of
  \<open>r\<close> in \<open>s\<close> starting at \<open>i\<close>, in the order in which the engine tries them (alternatives
  left to right, repetition greedy), so the head of the list is the match \<open>re\<close> reports.
  \<open>WordB\<close> is \<open>\b\<close>. An iteration of a star that consumes nothing is cut off; no starred
  sub-pattern of the source can match the empty string.
\<close>

datatype rx = Sym "char \<Rightarrow> bool" | WordB | Cat rx rx | Alt rx rx | Star rx

definition rx_plus :: "rx \<Rightarrow> rx" where
  "rx_plus r = Cat r (Star r)"

definition rx_chr :: "char \<Rightarrow> rx" where
  "rx_chr c = Sym (\<lambda>x. x = c)"

fun rx_lit :: "string \<Rightarrow> rx" where
  "rx_lit [] = Star (Sym (\<lambda>x. False))"
| "rx_lit [c] = rx_chr c"
| "rx_lit (c # cs) = Cat (rx_chr c) (rx_lit cs)"

fun rx_alts :: "rx list \<Rightarrow> rx" where
  "rx_alts [] = Sym (\<lambda>x. False)"
| "rx_alts [r] = r"
| "rx_alts (r # rs) = Alt r (rx_alts rs)"

definition word_at :: "string \<Rightarrow> int \<Rightarrow> bool" where
  "word_at s i = (0 \<le> i \<and> i < int (length s) \<and> is_word (s ! nat i))"

fun star_iter :: "(nat \<Rightarrow> nat list) \<Rightarrow> nat \<Rightarrow> nat \<Rightarrow> nat list" where
  "star_iter step 0 i = [i]"
| "star_iter step (Suc fuel) i =
     concat (map (star_iter step fuel) (filter (\<lambda>j. i < j) (step i))) @ [i]"

primrec rx_ends :: "rx \<Rightarrow> string \<Rightarrow> nat \<Rightarrow> nat list" where
  "rx_ends (Sym P) s i = (if i < length s \<and> P (s ! i) then [Suc i] else [])"
| "rx_ends WordB s i = (if word_at s (int i - 1) \<noteq> word_at s (int i) then [i] else [])"
| "rx_ends (Cat a b) s i = concat (map (rx_ends b s) (rx_ends a s i))"
| "rx_ends (Alt a b) s i = rx_ends a s i @ rx_ends b s i"
| "rx_ends (Star a) s i = star_iter (rx_ends a s) (length s - i) i"

definition rx_match :: "rx \<Rightarrow> string \<Rightarrow> nat \<Rightarrow> nat option" where
  "rx_match r s i = (case rx_ends r s i of [] \<Rightarrow> None | j # _ \<Rightarrow> Some j)"

text \<open>
  \<open>re.search\<close> tries the start positions from the left and returns the matched text;
  \<open>re.sub\<close> and \<open>re.split\<close> walk over the non-overlapping matches from the left. All
  patterns of the source match at least one character, and an empty match is skipped.
\<close>

function search_from :: "rx \<Rightarrow> string \<Rightarrow> nat \<Rightarrow> (nat \<times> nat) option" where
  "search_from r s i =
     (if length s < i then None
      else (case rx_match r s i of
              Some j \<Rightarrow> Some (i, j)
            | None \<Rightarrow> search_from r s (Suc i)))"
  by pat_completeness auto
termination
  by (relation "measure (\<lambda>(r, s, i). Suc (length s) - i)") auto

definition re_search :: "rx \<Rightarrow> string \<Rightarrow> string option" where
  "re_search r s = map_option (\<lambda>(i, j). py_slice i j s) (search_from r s 0)"

function sub_from :: "rx \<Rightarrow> string \<Rightarrow> string \<Rightarrow> nat \<Rightarrow> string" where
  "sub_from r repl s i =
     (if length s \<le> i then []
      else (case rx_match r s i of
              Some j \<Rightarrow> (if i < j then repl @ sub_from r repl s j
                         else s ! i # sub_from r repl s (Suc i))
            | None \<Rightarrow> s ! i # sub_from r repl s (Suc i)))"
  by pat_completeness auto
termination
  by (relation "measure (\<lambda>(r, repl, s, i). length s - i)") auto

definition re_sub :: "rx \<Rightarrow> string \<Rightarrow> string \<Rightarrow> string" where
  "re_sub r repl s = sub_from r repl s 0"

function split_from :: "rx \<Rightarrow> string \<Rightarrow> nat \<Rightarrow> nat \<Rightarrow> string list" where
  "split_from r s start i =
     (if length s \<le> i then [py_slice start (length s) s]
      else (case rx_match r s i of
              Some j \<Rightarrow> (if i < j then py_slice start i s # split_from r s j j
                         else split_from r s start (Suc i))
            | None \<Rightarrow> split_from r s start (Suc i)))"
  by pat_completeness auto
termination
  by (relation "measure (\<lambda>(r, s, start, i). length s - i)") auto

definition re_split :: "rx \<Rightarrow> string \<Rightarrow> string list" where
  "re_split r s = split_from r s 0 0"

subsection \<open>The network location of a URL\<close>

text \<open>
  \<open>urlparse(url).netloc\<close> of \<open>urllib.parse\<close>, following CPython's \<open>urlsplit\<close>: leading
  control characters and spaces are dropped, tab, carriage return and line feed are removed,
  a scheme (a letter followed by letters, digits, \<open>+\<close>, \<open>-\<close>, \<open>.\<close> up to the first colon) is
  split off, and after \<open>//\<close> the network location runs up to the first \<open>/\<close>, \<open>?\<close> or
  \<open>#\<close>. A network location with one square bracket and not the other raises
  \<open>ValueError("Invalid IPv6 URL")\<close>. The validation of a bracketed host as an IP literal,
  which differs between releases of CPython, is not modelled: a network location that holds
  both brackets is returned as it is. The normalisation check on hosts outside ASCII raises for
  no host made of the code points modelled here.
\<close>

definition strip_scheme :: "string \<Rightarrow> string" where
  "strip_scheme url =
     (let pre = takeWhile (\<lambda>c. c \<noteq> CHR '':'') url
      in if CHR '':'' \<in> set url \<and> pre \<noteq> [] \<and> is_alpha (hd url)
            \<and> list_all (\<lambda>c. is_alpha c \<or> is_digit c \<or> c \<in> set ''+-.'') pre
         then drop (Suc (length pre)) url
         else url)"

definition urlparse_netloc :: "string \<Rightarrow> exn + string" where
  "urlparse_netloc url =
     (let url1 = dropWhile (\<lambda>c. (of_char c :: nat) \<le> 32) url;
          url2 = filter (\<lambda>c. c \<notin> set [CHR 0x09, CHR 0x0D, CHR 0x0A]) url1;
          url3 = strip_scheme url2
      in if take 2 url3 = ''//'' then
           (let netloc = takeWhile (\<lambda>c. c \<notin> set ''/?#'') (drop 2 url3)
            in if (CHR ''['' \<in> set netloc \<and> CHR '']'' \<notin> set netloc)
                  \<or> (CHR '']'' \<in> set netloc \<and> CHR ''['' \<notin> set netloc)
               then Inl (ValueError ''Invalid IPv6 URL'')
               else Inr netloc)
         else Inr [])"

section \<open>citation\_manager.py\<close>

subsection \<open>Data model\<close>

text \<open>
  The enum \<open>CitationStyle\<close> and the dataclasses \<open>SourceMetadata\<close> and \<open>Citation\<close>
  (field \<open>section\<close> is \<open>section_name\<close> here). \<open>post_init\<close> is \<open>__post_init__\<close>, with
  the current date as a parameter. The manager holds the ordered \<open>sources\<close> dictionary and
  the \<open>citations\<close> list.
\<close>

datatype CitationStyle = APA | MLA | CHICAGO | HARVARD | IEEE

record SourceMetadata =
  url :: string
  title :: string
  author :: string
  publish_date :: "string option"
  domain :: string
  access_date :: string
  content_type :: string

definition post_init :: "string \<Rightarrow> SourceMetadata \<Rightarrow> SourceMetadata" where
  "post_init today m = (if access_date m = [] then m\<lparr>access_date := today\<rparr> else m)"

record Citation =
  source :: SourceMetadata
  quote :: "string option"
  page_number :: "string option"
  section_name :: "string option"
  confidence :: real

record CitationManager =
  sources :: "(string \<times> SourceMetadata) list"
  citations :: "Citation list"

definition init_manager :: CitationManager where
  "init_manager = \<lparr>sources = [], citations = []\<rparr>"

subsection \<open>Source identifiers\<close>

text \<open>
  \<open>_generate_source_id\<close> (lines 170--181). \<open>base_source_id\<close> is the identifier before the
  collision loop: every occurrence of \<open>www.\<close> is removed from the network location, the
  lower-cased title loses every character that is neither a word character nor whitespace,
  and its first three whitespace-separated tokens are joined with underscores.
  \<open>suffixed original_id counter\<close> is the f-string \<open>{original_id}_{counter}\<close>.
\<close>

definition suffixed :: "string \<Rightarrow> nat \<Rightarrow> string" where
  "suffixed original_id counter = original_id @ ''_'' @ str_nat counter"

definition base_source_id :: "string \<Rightarrow> string \<Rightarrow> string" where
  "base_source_id netloc title' =
     (let domain = py_replace ''www.'' [] netloc;
          title_words = take 3 (py_split (filter (\<lambda>c. is_word c \<or> is_space c) (py_lower title')))
      in domain @ ''_'' @ py_join ''_'' title_words)"

text \<open>
  The \<open>while source_id in self.sources\<close> loop. It terminates because the decimal
  numerals of distinct counters differ, so each round uses up one of the finitely many keys
  of the form \<open>suffixed original_id c\<close> that the registry holds.
\<close>

declare str_nat.simps [simp del]

lemma digit_char_inj:
  assumes "a < 10" "b < 10" "''0123456789'' ! a = ''0123456789'' ! b"
  shows "a = b"
proof -
  have d: "distinct ''0123456789''" by simp
  have l: "length ''0123456789'' = 10" by simp
  show ?thesis using assms nth_eq_iff_index_eq [OF d, of a b] l by simp
qed

lemma str_nat_nonempty: "str_nat n \<noteq> []"
  by (subst str_nat.simps) simp

lemma str_nat_inj: "str_nat m = str_nat n \<Longrightarrow> m = n"
proof (induction m arbitrary: n rule: str_nat.induct)
  case (1 m)
  show ?case
  proof (cases "m < 10")
    case small_m: True
    show ?thesis
    proof (cases "n < 10")
      case True
      with small_m "1.prems" show ?thesis
        by (subst (asm) str_nat.simps, subst (asm) (2) str_nat.simps) (simp add: digit_char_inj)
    next
      case False
      have "length (str_nat m) = 1" using small_m by (subst str_nat.simps) simp
      moreover have "length (str_nat n) \<ge> 2"
        using False str_nat_nonempty [of "n div 10"]
        by (subst str_nat.simps) (cases "str_nat (n div 10)"; simp)
      ultimately show ?thesis using "1.prems" by simp
    qed
  next
    case big_m: False
    show ?thesis
    proof (cases "n < 10")
      case True
      have "length (str_nat n) = 1" using True by (subst str_nat.simps) simp
      moreover have "length (str_nat m) \<ge> 2"
        using big_m str_nat_nonempty [of "m div 10"]
        by (subst str_nat.simps) (cases "str_nat (m div 10)"; simp)
      ultimately show ?thesis using "1.prems" by simp
    next
      case False
      have em: "str_nat m = str_nat (m div 10) @ [''0123456789'' ! (m mod 10)]"
        using big_m by (subst str_nat.simps) simp
      have en: "str_nat n = str_nat (n div 10) @ [''0123456789'' ! (n mod 10)]"
        using False by (subst str_nat.simps) simp
      from "1.prems" em en
      have pre: "str_nat (m div 10) = str_nat (n div 10)"
        and dig: "''0123456789'' ! (m mod 10) = ''0123456789'' ! (n mod 10)" by simp_all
      from "1.IH" [OF big_m pre] have q: "m div 10 = n div 10" .
      have r: "m mod 10 = n mod 10" using dig by (intro digit_char_inj) simp_all
      show ?thesis using q r by (metis div_mult_mod_eq)
    qed
  qed
qed

lemma suffixed_inj: "suffixed original_id a = suffixed original_id b \<Longrightarrow> a = b"
  by (simp add: suffixed_def str_nat_inj)

lemma taken_suffixes_step:
  "card (set ks \<inter> suffixed original_id ` {Suc c..}) + (if suffixed original_id c \<in> set ks then 1 else 0)
   = card (set ks \<inter> suffixed original_id ` {c..})"
proof -
  let ?A = "set ks \<inter> suffixed original_id ` {c..}"
  let ?B = "set ks \<inter> suffixed original_id ` {Suc c..}"
  have split: "{c..} = insert c {Suc c..}" by auto
  have fresh: "suffixed original_id c \<notin> suffixed original_id ` {Suc c..}"
    using suffixed_inj by fastforce
  have fin: "finite ?B" by simp
  show ?thesis
  proof (cases "suffixed original_id c \<in> set ks")
    case True
    then have "?A = insert (suffixed original_id c) ?B" unfolding split by auto
    moreover have "suffixed original_id c \<notin> ?B" using fresh by simp
    ultimately show ?thesis using True fin by simp
  next
    case False
    then have "?A = ?B" unfolding split by auto
    with False show ?thesis by simp
  qed
qed

function source_id_loop :: "string list \<Rightarrow> string \<Rightarrow> string \<Rightarrow> nat \<Rightarrow> string" where
  "source_id_loop ks original_id source_id counter =
     (if source_id \<in> set ks
      then source_id_loop ks original_id (suffixed original_id counter) (counter + 1)
      else source_id)"
  by pat_completeness auto
termination
proof (relation "measure (\<lambda>(ks, original_id, source_id, counter).
          card (set ks \<inter> suffixed original_id ` {counter..}) + (if source_id \<in> set ks then 1 else 0))")
  show "wf (measure (\<lambda>(ks, original_id, source_id, counter).
          card (set ks \<inter> suffixed original_id ` {counter..}) + (if source_id \<in> set ks then 1 else 0)))"
    by simp
next
  fix ks :: "string list" and original_id source_id :: string and counter :: nat
  assume "source_id \<in> set ks"
  then show "((ks, original_id, suffixed original_id counter, counter + 1), (ks, original_id, source_id, counter))
      \<in> measure (\<lambda>(ks, original_id, source_id, counter).
          card (set ks \<inter> suffixed original_id ` {counter..}) + (if source_id \<in> set ks then 1 else 0))"
    using taken_suffixes_step [of ks original_id counter] by simp
qed

declare source_id_loop.simps [simp del]

text \<open>
  \<open>_generate_source_id\<close> and \<open>add_source\<close> (lines 43--59). Both call \<open>urlparse\<close>, so
  both can raise; \<open>today\<close> is \<open>datetime.now().strftime("%Y-%m-%d")\<close>. The defaults of the
  optional arguments (\<open>"Unknown"\<close>, \<open>None\<close>, \<open>"webpage"\<close>) are passed explicitly.
\<close>

definition generate_source_id :: "CitationManager \<Rightarrow> string \<Rightarrow> string \<Rightarrow> exn + string" where
  "generate_source_id m url' title' =
     (case urlparse_netloc url' of
        Inl e \<Rightarrow> Inl e
      | Inr netloc \<Rightarrow>
          (let source_id = base_source_id netloc title'
           in Inr (source_id_loop (dict_keys (sources m)) source_id source_id 1)))"

definition add_source ::
  "CitationManager \<Rightarrow> string \<Rightarrow> string \<Rightarrow> string \<Rightarrow> string \<Rightarrow> string option \<Rightarrow> string
     \<Rightarrow> exn + (string \<times> CitationManager)" where
  "add_source m today url' title' author' publish_date' content_type' =
     (case urlparse_netloc url' of
        Inl e \<Rightarrow> Inl e
      | Inr domain' \<Rightarrow>
          (case generate_source_id m url' title' of
             Inl e \<Rightarrow> Inl e
           | Inr source_id \<Rightarrow>
               (let metadata = post_init today
                      \<lparr>url = url', title = title', author = author', publish_date = publish_date',
                       domain = domain', access_date = today, content_type = content_type'\<rparr>
                in Inr (source_id, m\<lparr>sources := dict_set (sources m) source_id metadata\<rparr>))))"

text \<open>
  \<open>add_citation\<close> (lines 61--76): the state after the call is part of the result, also when
  the call raises.
\<close>

definition add_citation ::
  "CitationManager \<Rightarrow> string \<Rightarrow> string option \<Rightarrow> string option \<Rightarrow> string option \<Rightarrow> real
     \<Rightarrow> (exn + Citation) \<times> CitationManager" where
  "add_citation m source_id quote' page_number' section' confidence' =
     (case dict_get (sources m) source_id of
        None \<Rightarrow> (Inl (ValueError (''Source '' @ source_id @ '' not found'')), m)
      | Some src \<Rightarrow>
          (let citation = \<lparr>source = src, quote = quote', page_number = page_number',
                            section_name = section', confidence = confidence'\<rparr>
           in (Inr citation, m\<lparr>citations := citations m @ [citation]\<rparr>)))"

subsection \<open>Year extraction and title cleanup\<close>

text \<open>
  \<open>_extract_year\<close> (lines 183--191) searches \<open>\b(19|20)\d{2}\b\<close>.
\<close>

definition rx_year :: rx where
  "rx_year = Cat WordB (Cat (Alt (rx_lit ''19'') (rx_lit ''20''))
               (Cat (Sym is_digit) (Cat (Sym is_digit) WordB)))"

definition extract_year :: "string option \<Rightarrow> string option" where
  "extract_year date_string =
     (case date_string of
        None \<Rightarrow> None
      | Some d \<Rightarrow> if d = [] then None else re_search rx_year d)"

text \<open>
  \<open>_clean_title\<close> (lines 193--213). The four removal rules, in the order of the source:
  \<open>\.\w+[-\w]*\s*\<close>, \<open>\b[A-Z][a-z]+-[A-Z][a-z]+(?:\s+[A-Z][a-z]+)*\b\<close>,
  \<open>--[a-zA-Z-]+\<close> and the keyword list between word boundaries; then \<open>\s+\<close> becomes one
  space and the title is stripped (\<open>strip_artifacts\<close>). The fragment pattern is
  \<open>([A-Z][^.]*[.!?])\<close>. The source assigns every intermediate result to the variable
  \<open>title\<close>, so the fragment is searched in the stripped title.
\<close>

definition rx_rule_class :: rx where
  "rx_rule_class = Cat (rx_chr (CHR ''.'')) (Cat (rx_plus (Sym is_word))
      (Cat (Star (Sym (\<lambda>c. c = CHR ''-'' \<or> is_word c))) (Star (Sym is_space))))"

definition rx_cap_word :: rx where
  "rx_cap_word = Cat (Sym is_upper) (rx_plus (Sym is_lower))"

definition rx_rule_hyphenated :: rx where
  "rx_rule_hyphenated = Cat WordB (Cat rx_cap_word (Cat (rx_chr (CHR ''-'')) (Cat rx_cap_word
      (Cat (Star (Cat (rx_plus (Sym is_space)) rx_cap_word)) WordB))))"

definition rx_rule_css_var :: rx where
  "rx_rule_css_var = Cat (rx_lit ''--'') (rx_plus (Sym (\<lambda>c. is_alpha c \<or> c = CHR ''-'')))"

definition rx_rule_keywords :: rx where
  "rx_rule_keywords = Cat WordB (Cat (rx_alts (map rx_lit
      [''Align'', ''Display'', ''Flex'', ''Gap'', ''Var'', ''Font'', ''Size'', ''Weight'', ''Line'',
       ''Height'', ''Media'', ''Min'', ''Width'', ''Show'', ''Seperator'', ''Block''])) WordB)"

definition rx_spaces :: rx where
  "rx_spaces = rx_plus (Sym is_space)"

definition rx_fragment :: rx where
  "rx_fragment = Cat (Sym is_upper) (Cat (Star (Sym (\<lambda>c. c \<noteq> CHR ''.'')))
      (Sym (\<lambda>c. c \<in> set ''.!?'')))"

definition strip_artifacts :: "string \<Rightarrow> string" where
  "strip_artifacts title' =
     py_strip (re_sub rx_spaces '' ''
       (re_sub rx_rule_keywords []
         (re_sub rx_rule_css_var []
           (re_sub rx_rule_hyphenated []
             (re_sub rx_rule_class [] title')))))"

definition clean_title :: "string \<Rightarrow> string" where
  "clean_title title' =
     (if title' = [] then title'
      else (let t = strip_artifacts title'
            in if length t < 10
               then (case re_search rx_fragment t of Some frag \<Rightarrow> frag | None \<Rightarrow> t)
               else t))"

subsection \<open>Formatting\<close>

text \<open>
  The five reference formats (lines 215--325) and their dispatch. \<open>fmt_opt\<close> is how an
  f-string prints an optional string: \<open>None\<close> prints as the word \<open>None\<close>. The enum is closed,
  so the final \<open>else\<close> of \<open>format_citation\<close> has no case of its own.
\<close>

definition fmt_opt :: "string option \<Rightarrow> string" where
  "fmt_opt v = (case v of None \<Rightarrow> ''None'' | Some x \<Rightarrow> x)"

definition format_apa_citation :: "SourceMetadata \<Rightarrow> string" where
  "format_apa_citation src =
     (let cleaned = clean_title (title src);
          year = extract_year (publish_date src)
      in py_join '' ''
          ([if author src \<noteq> ''Unknown'' then author src else cleaned]
           @ [case year of Some y \<Rightarrow> if y \<noteq> [] then ''('' @ y @ '')'' else ''(n.d.)''
                         | None \<Rightarrow> ''(n.d.)'']
           @ [if author src \<noteq> ''Unknown'' then cleaned @ ''.''
              else ''Retrieved from '' @ url src]
           @ (if author src \<noteq> ''Unknown''
              then [''Retrieved '' @ access_date src @ '' from '' @ url src] else [])))"

definition year_part :: "string option \<Rightarrow> (string \<Rightarrow> string) \<Rightarrow> string list" where
  "year_part year f = (case year of Some y \<Rightarrow> if y \<noteq> [] then [f y] else [] | None \<Rightarrow> [])"

definition format_mla_citation :: "SourceMetadata \<Rightarrow> string" where
  "format_mla_citation src =
     (let cleaned = clean_title (title src);
          year = extract_year (publish_date src)
      in py_join '' ''
          ((if author src \<noteq> ''Unknown'' then [author src] else [])
           @ [[CHR 0x22] @ cleaned @ ''.'' @ [CHR 0x22]]
           @ [domain src @ '','']
           @ year_part year (\<lambda>y. y @ '','')
           @ [access_date src @ '', '' @ url src @ ''.'']))"

definition format_chicago_citation :: "SourceMetadata \<Rightarrow> string" where
  "format_chicago_citation src =
     (let cleaned = clean_title (title src);
          year = extract_year (publish_date src)
      in py_join '' ''
          ([if author src \<noteq> ''Unknown'' then author src else domain src]
           @ [[CHR 0x22] @ cleaned @ ''.'' @ [CHR 0x22]]
           @ [domain src @ ''.'']
           @ year_part year (\<lambda>y. ''Last modified '' @ y @ ''.'')
           @ [''Accessed '' @ access_date src @ ''. '' @ url src @ ''.'']))"

definition format_harvard_citation :: "SourceMetadata \<Rightarrow> string" where
  "format_harvard_citation src =
     (let cleaned = clean_title (title src);
          year = extract_year (publish_date src)
      in py_join '' ''
          ([if author src \<noteq> ''Unknown'' then author src else domain src]
           @ [case year of Some y \<Rightarrow> if y \<noteq> [] then y else ''n.d.'' | None \<Rightarrow> ''n.d.'']
           @ [cleaned @ ''.'']
           @ [''Available at: '' @ url src @ '' (Accessed: '' @ access_date src @ '')'']))"

definition format_ieee_citation :: "SourceMetadata \<Rightarrow> string" where
  "format_ieee_citation src =
     (let cleaned = clean_title (title src);
          year = extract_year (publish_date src)
      in py_join '' ''
          ([if author src \<noteq> ''Unknown'' then author src else domain src]
           @ [[CHR 0x22] @ cleaned @ '','' @ [CHR 0x22]]
           @ [domain src @ ''.'']
           @ year_part year (\<lambda>y. y @ ''.'')
           @ [''[Online]. Available: '' @ url src]))"

definition format_citation :: "CitationManager \<Rightarrow> string \<Rightarrow> CitationStyle \<Rightarrow> string" where
  "format_citation m source_id style =
     (case dict_get (sources m) source_id of
        None \<Rightarrow> ''[Source not found: '' @ source_id @ '']''
      | Some src \<Rightarrow>
          (case style of
             APA \<Rightarrow> format_apa_citation src
           | MLA \<Rightarrow> format_mla_citation src
           | CHICAGO \<Rightarrow> format_chicago_citation src
           | HARVARD \<Rightarrow> format_harvard_citation src
           | IEEE \<Rightarrow> format_ieee_citation src))"

definition format_in_text_citation :: "CitationManager \<Rightarrow> string \<Rightarrow> CitationStyle \<Rightarrow> string" where
  "format_in_text_citation m source_id style =
     (case dict_get (sources m) source_id of
        None \<Rightarrow> ''[Source not found: '' @ source_id @ '']''
      | Some src \<Rightarrow>
          (if style = APA then
             (if author src \<noteq> ''Unknown''
              then ''('' @ author src @ '', '' @ fmt_opt (extract_year (publish_date src)) @ '')''
              else ''('' @ title src @ '', '' @ fmt_opt (extract_year (publish_date src)) @ '')'')
           else if style = MLA then
             (if author src \<noteq> ''Unknown''
              then ''('' @ author src @ '')''
              else ''('' @ title src @ '')'')
           else if style = HARVARD then
             (if author src \<noteq> ''Unknown''
              then ''('' @ author src @ '' '' @ fmt_opt (extract_year (publish_date src)) @ '')''
              else ''('' @ title src @ '' '' @ fmt_opt (extract_year (publish_date src)) @ '')'')
           else ''('' @ source_id @ '')''))"

text \<open>
  The in-text forms in the words of the specification: APA and Harvard both print
  \<open>(author-or-title, year)\<close>.
\<close>

definition author_or_title :: "SourceMetadata \<Rightarrow> string" where
  "author_or_title src = (if author src \<noteq> ''Unknown'' then author src else title src)"

definition in_text_spec :: "CitationManager \<Rightarrow> string \<Rightarrow> CitationStyle \<Rightarrow> string" where
  "in_text_spec m source_id style =
     (case dict_get (sources m) source_id of
        None \<Rightarrow> ''[Source not found: '' @ source_id @ '']''
      | Some src \<Rightarrow>
          (case style of
             APA \<Rightarrow> ''('' @ author_or_title src @ '', '' @ fmt_opt (extract_year (publish_date src)) @ '')''
           | HARVARD \<Rightarrow> ''('' @ author_or_title src @ '', '' @ fmt_opt (extract_year (publish_date src)) @ '')''
           | MLA \<Rightarrow> ''('' @ author_or_title src @ '')''
           | CHICAGO \<Rightarrow> ''('' @ source_id @ '')''
           | IEEE \<Rightarrow> ''('' @ source_id @ '')''))"

subsection \<open>Statistics\<close>

text \<open>
  \<open>get_source_statistics\<close> (lines 143--168). \<open>bump\<close> is
  \<open>d[k] = d.get(k, 0) + 1\<close>; \<open>max_scan\<close> is Python's \<open>max\<close> with \<open>key=lambda x: x[1]\<close>,
  which keeps the first of several maximal items; \<open>most_common\<close> is the guarded
  \<open>max(...)[0] if d else None\<close>.
\<close>

record Statistics =
  total_sources :: nat
  total_citations :: nat
  domains :: "(string \<times> nat) list"
  authors :: "(string \<times> nat) list"
  years :: "(string \<times> nat) list"
  most_common_domain :: "string option"
  most_common_author :: "string option"

definition bump :: "(string \<times> nat) list \<Rightarrow> string \<Rightarrow> (string \<times> nat) list" where
  "bump d k = dict_set d k ((case dict_get d k of None \<Rightarrow> 0 | Some n \<Rightarrow> n) + 1)"

fun count_sources ::
  "SourceMetadata list \<Rightarrow> (string \<times> nat) list \<times> (string \<times> nat) list \<times> (string \<times> nat) list
     \<Rightarrow> (string \<times> nat) list \<times> (string \<times> nat) list \<times> (string \<times> nat) list" where
  "count_sources [] acc = acc"
| "count_sources (src # rest) (ds, as, ys) =
     count_sources rest
       (bump ds (domain src), bump as (author src),
        (case extract_year (publish_date src) of
           None \<Rightarrow> ys
         | Some year \<Rightarrow> if year \<noteq> [] then bump ys year else ys))"

fun max_scan :: "('k \<times> nat) \<Rightarrow> ('k \<times> nat) list \<Rightarrow> ('k \<times> nat)" where
  "max_scan best [] = best"
| "max_scan best (x # xs) = (if snd best < snd x then max_scan x xs else max_scan best xs)"

definition most_common :: "('k \<times> nat) list \<Rightarrow> 'k option" where
  "most_common d = (case d of [] \<Rightarrow> None | x # xs \<Rightarrow> Some (fst (max_scan x xs)))"

definition get_source_statistics :: "CitationManager \<Rightarrow> Statistics" where
  "get_source_statistics m =
     (case count_sources (dict_values (sources m)) ([], [], []) of
        (ds, as, ys) \<Rightarrow>
          \<lparr>total_sources = length (sources m), total_citations = length (citations m),
           domains = ds, authors = as, years = ys,
           most_common_domain = most_common ds, most_common_author = most_common as\<rparr>)"

section \<open>content\_extractor.py\<close>

subsection \<open>Summary generation and whitespace cleanup\<close>

text \<open>
  \<open>_generate_summary\<close> (lines 226--246): the content is split at \<open>[.!?]+\<close>; the loop
  strips each piece and stops at the first piece that is empty or does not keep the running
  total under \<open>max_length\<close>.
\<close>

definition rx_terminators :: rx where
  "rx_terminators = rx_plus (Sym (\<lambda>c. c \<in> set ''.!?''))"

definition ensure_period :: "string \<Rightarrow> string" where
  "ensure_period summary =
     (if summary \<noteq> [] \<and> last summary \<noteq> CHR ''.'' then summary @ ''.'' else summary)"

fun summary_loop :: "string list \<Rightarrow> string list \<Rightarrow> nat \<Rightarrow> int \<Rightarrow> string list" where
  "summary_loop [] summary_sentences current_length max_length = summary_sentences"
| "summary_loop (s # rest) summary_sentences current_length max_length =
     (let sentence = py_strip s
      in if sentence \<noteq> [] \<and> int (current_length + length sentence) < max_length
         then summary_loop rest (summary_sentences @ [sentence])
                (current_length + length sentence) max_length
         else summary_sentences)"

definition generate_summary :: "string \<Rightarrow> int \<Rightarrow> string" where
  "generate_summary content max_length =
     (if content = [] then []
      else ensure_period (py_join ''. ''
             (summary_loop (re_split rx_terminators content) [] 0 max_length)))"

text \<open>
  The summary in the words of the specification: the loop stops only at the first sentence
  that does not keep the running total under the budget.
\<close>

fun spec_loop :: "string list \<Rightarrow> string list \<Rightarrow> nat \<Rightarrow> int \<Rightarrow> string list" where
  "spec_loop [] acc running budget = acc"
| "spec_loop (s # rest) acc running budget =
     (let sentence = py_strip s
      in if int (running + length sentence) < budget
         then spec_loop rest (acc @ [sentence]) (running + length sentence) budget
         else acc)"

definition summary_spec :: "string \<Rightarrow> int \<Rightarrow> string" where
  "summary_spec content budget =
     (if content = [] then []
      else ensure_period (py_join ''. '' (spec_loop (re_split rx_terminators content) [] 0 budget)))"

text \<open>
\<open>_clean_text\<close> (lines 216--224).
\<close>

definition clean_text :: "string \<Rightarrow> string" where
  "clean_text text' =
     (let lines = map py_strip (py_splitlines text');
          chunks = map py_strip (concat (map (split_spaces2 []) lines));
          joined = py_join '' '' (filter (\<lambda>chunk. chunk \<noteq> []) chunks);
          collapsed = re_sub rx_spaces '' '' joined;
          unblanked = re_sub (Cat (rx_chr (CHR 0x0A)) (Cat (Star (Sym is_space)) (rx_chr (CHR 0x0A))))
                        [CHR 0x0A] collapsed
      in py_strip unblanked)"

subsection \<open>Truncation\<close>

text \<open>
  The truncation step of \<open>ContentExtractor._format_result\<close> (lines 249--257). The source
  compares \<open>last_period > max_length * 0.8\<close> in floating point; for the lengths a string
  can have the product is the exact value of \<open>4 * max_length / 5\<close> rounded to a double,
  which is exact when it is an integer and otherwise lies strictly between the same two
  integers, so the test is \<open>5 * last_period > 4 * max_length\<close> over the integers.
\<close>

definition truncate_content :: "string \<Rightarrow> int \<Rightarrow> string" where
  "truncate_content content max_length =
     (if int (length content) > max_length then
        (let content1 = py_slice_to max_length content;
             last_period = py_rfind (CHR ''.'') content1
         in if 5 * last_period > 4 * max_length
            then py_slice_to (last_period + 1) content1
            else content1 @ ''...'')
      else content)"

text \<open>
  The truncation rule in the words of the specification: the period is kept when its
  position is \<^emph>\<open>at least\<close> 80\% of the budget.
\<close>

definition truncate_spec :: "string \<Rightarrow> int \<Rightarrow> string" where
  "truncate_spec content max_length =
     (if int (length content) \<le> max_length then content
      else (let content1 = py_slice_to max_length content;
                last_period = py_rfind (CHR ''.'') content1
            in if 0 \<le> last_period \<and> 5 * last_period \<ge> 4 * max_length
               then py_slice_to (last_period + 1) content1
               else content1 @ ''...''))"
text \<open>
  The recursive equations of the three scanning functions are unfolded by hand in the proofs.
\<close>

declare search_from.simps [simp del] sub_from.simps [simp del] split_from.simps [simp del]

subsection \<open>Registration sequences and the identifier of the specification\<close>

text \<open>
  The base identifier in the words of the specification: only a leading \<open>www.\<close> is
  stripped from the host.
\<close>

definition base_source_id_spec :: "string \<Rightarrow> string \<Rightarrow> string" where
  "base_source_id_spec netloc title' =
     (let domain = (if take 4 netloc = ''www.'' then drop 4 netloc else netloc);
          title_words = take 3 (py_split (filter (\<lambda>c. is_word c \<or> is_space c) (py_lower title')))
      in domain @ ''_'' @ py_join ''_'' title_words)"

text \<open>
  A sequence of \<open>add_source\<close> calls on one manager, each request giving the five
  arguments; a call that raises leaves the manager as it was and contributes no identifier.
\<close>

fun add_sources ::
  "CitationManager \<Rightarrow> string \<Rightarrow> (string \<times> string \<times> string \<times> string option \<times> string) list
     \<Rightarrow> string list \<times> CitationManager" where
  "add_sources m today [] = ([], m)"
| "add_sources m today ((url', title', author', publish_date', content_type') # rest) =
     (case add_source m today url' title' author' publish_date' content_type' of
        Inl e \<Rightarrow> add_sources m today rest
      | Inr (source_id, m') \<Rightarrow>
          (case add_sources m' today rest of (ids, m'') \<Rightarrow> (source_id # ids, m'')))"

subsection \<open>What the summary is measured against\<close>

text \<open>
  The stripped pieces between the runs of sentence terminators, and the property that the
  first \<open>k\<close> of them are accepted by the loop: each is non-empty and keeps the running total
  of characters under the budget.
\<close>

definition sentences :: "string \<Rightarrow> string list" where
  "sentences content = map py_strip (re_split rx_terminators content)"

definition accepted :: "int \<Rightarrow> string list \<Rightarrow> nat \<Rightarrow> bool" where
  "accepted max_length ss k \<longleftrightarrow>
     k \<le> length ss
     \<and> (\<forall>i<k. ss ! i \<noteq> [] \<and> int (sum_list (map length (take (Suc i) ss))) < max_length)"

subsection \<open>Title cleanup in the words of the specification\<close>

text \<open>
  The specification recovers the sentence fragment from the original title.
\<close>

definition clean_title_spec :: "string \<Rightarrow> string" where
  "clean_title_spec title' =
     (if title' = [] then title'
      else (let t = strip_artifacts title'
            in if length t < 10
               then (case re_search rx_fragment title' of Some frag \<Rightarrow> frag | None \<Rightarrow> t)
               else t))"

text \<open>
  \<open>fragment_at s i j\<close>: the characters of \<open>s\<close> from \<open>i\<close> up to \<open>j\<close> (exclusive) are a
  capitalised sentence fragment: a capital letter, no period before the last character, and a
  last character among \<open>.\<close>, \<open>!\<close>, \<open>?\<close>.
\<close>

definition fragment_at :: "string \<Rightarrow> nat \<Rightarrow> nat \<Rightarrow> bool" where
  "fragment_at s i j \<longleftrightarrow>
     Suc i < j \<and> j \<le> length s \<and> is_upper (s ! i)
     \<and> (\<forall>k. i < k \<and> k < j - 1 \<longrightarrow> s ! k \<noteq> CHR ''.'')
     \<and> s ! (j - 1) \<in> set ''.!?''"

subsection \<open>What the statistics are measured against\<close>

text \<open>
  The domains and authors of the registered sources, in registration order, and the property
  of being the first maximum of a list of values: \<open>d\<close> occurs, no value occurs more often,
  and every value that occurs before the first \<open>d\<close> occurs strictly less often.
\<close>

definition registered_domains :: "CitationManager \<Rightarrow> string list" where
  "registered_domains m = map domain (dict_values (sources m))"

definition registered_authors :: "CitationManager \<Rightarrow> string list" where
  "registered_authors m = map author (dict_values (sources m))"

definition first_max :: "string list \<Rightarrow> string \<Rightarrow> bool" where
  "first_max ks d \<longleftrightarrow>
     d \<in> set ks
     \<and> (\<forall>x\<in>set ks. count_list ks x \<le> count_list ks d)
     \<and> (\<forall>x\<in>set (takeWhile (\<lambda>x. x \<noteq> d) ks). count_list ks x < count_list ks d)"

subsection \<open>Documents\<close>

text \<open>
  The dictionaries that the extractor builds, as records. \<open>Metadata\<close> is the
  \<open>metadata\<close> dictionary; its keys \<open>extraction_method\<close> and \<open>error\<close> are absent in some
  of the dictionaries, hence optional. \<open>StrategyResult\<close> is what a strategy returns,
  \<open>ExtractedDocument\<close> what \<open>extract_content\<close> returns.
\<close>

record Metadata =
  meta_author :: string
  meta_publish_date :: "string option"
  meta_domain :: string
  meta_extraction_method :: "string option"
  meta_error :: "string option"

record StrategyResult =
  res_title :: string
  res_summary :: string
  res_content :: string
  res_metadata :: Metadata

record SourceInfo =
  link :: string
  website :: string
  extraction_timestamp :: string

record ExtractedDocument =
  doc_url :: string
  doc_title :: string
  doc_summary :: string
  doc_content :: string
  doc_metadata :: Metadata
  doc_source_info :: SourceInfo

subsection \<open>The libraries and the network\<close>

text \<open>
  What the code gets from \<open>newspaper\<close>, \<open>requests\<close>, \<open>readability\<close>, \<open>bs4\<close>,
  \<open>dateutil\<close> and the clock is a parameter \<open>env\<close>. A call that touches the network takes
  the state of the world \<open>w\<close> and returns the new one, together with either the exception
  it raised or the values the code reads from the result:
  \<^item> \<open>newspaper_article\<close>: \<open>Article(url)\<close>, \<open>download()\<close>, \<open>parse()\<close> and the fields read
    (the publish date already as its \<open>isoformat()\<close>);
  \<^item> \<open>readability_page\<close>: \<open>session.get\<close>, \<open>raise_for_status\<close>, the title and summary of
    \<open>Document\<close>, the text of the summary, and \<open>response.text\<close>;
  \<^item> \<open>soup_page\<close>: \<open>session.get\<close>, \<open>raise_for_status\<close>, the text of the title tag if
    there is one, the text of the first matching content container (else of the body, else of
    the whole document) after scripts and styles are removed, and \<open>response.text\<close>;
  \<^item> \<open>select_one html selector\<close>: \<open>BeautifulSoup(html).select_one(selector)\<close>;
  \<^item> \<open>dateutil_parse\<close>: the \<open>isoformat()\<close> of \<open>parser.parse\<close>, or \<open>None\<close> when it raises;
  \<^item> \<open>now_isoformat\<close>: \<open>datetime.now().isoformat()\<close>.
  Printing and the one-second sleep between URLs are left out.
\<close>

record Element =
  el_name :: string
  el_attrs :: "(string \<times> string) list"
  el_text :: string

record Article =
  art_title :: string
  art_summary :: string
  art_text :: string
  art_authors :: "string list"
  art_publish_date :: "string option"

record ReadablePage =
  rp_title :: string
  rp_text :: string
  rp_html :: string

record SoupPage =
  sp_title :: "string option"
  sp_text :: string
  sp_html :: string

record 'w Env =
  newspaper_article :: "string \<Rightarrow> 'w \<Rightarrow> (exn + Article) \<times> 'w"
  readability_page :: "string \<Rightarrow> 'w \<Rightarrow> (exn + ReadablePage) \<times> 'w"
  soup_page :: "string \<Rightarrow> 'w \<Rightarrow> (exn + SoupPage) \<times> 'w"
  select_one :: "string \<Rightarrow> string \<Rightarrow> Element option"
  dateutil_parse :: "string \<Rightarrow> string option"
  now_isoformat :: "'w \<Rightarrow> string \<times> 'w"

subsection \<open>The three strategies\<close>

text \<open>
  \<open>_extract_with_newspaper\<close> (lines 55--74): every exception of the body, also the one
  \<open>urlparse\<close> may raise while the dictionary is built, is caught and gives \<open>None\<close>.
\<close>

definition extract_with_newspaper ::
  "'w Env \<Rightarrow> string \<Rightarrow> 'w \<Rightarrow> StrategyResult option \<times> 'w" where
  "extract_with_newspaper env url' w =
     (case newspaper_article env url' w of
        (Inl e, w1) \<Rightarrow> (None, w1)
      | (Inr article, w1) \<Rightarrow>
          (case urlparse_netloc url' of
             Inl e \<Rightarrow> (None, w1)
           | Inr netloc \<Rightarrow>
               (Some \<lparr>res_title = (if art_title article \<noteq> [] then art_title article
                                    else ''No title found''),
                      res_summary = art_summary article,
                      res_content = art_text article,
                      res_metadata =
                        \<lparr>meta_author = (if art_authors article \<noteq> []
                                         then py_join '', '' (art_authors article) else ''Unknown''),
                         meta_publish_date = art_publish_date article,
                         meta_domain = netloc,
                         meta_extraction_method = Some ''newspaper3k'',
                         meta_error = None\<rparr>\<rparr>, w1)))"

text \<open>
  \<open>_extract_metadata_from_html\<close> (lines 160--214): the first matching selector of each list
  wins. The dictionary is created with the domain first, so \<open>urlparse\<close> raises before any
  selector is tried.
\<close>

fun first_match :: "(string \<Rightarrow> Element option) \<Rightarrow> string list \<Rightarrow> Element option" where
  "first_match sel [] = None"
| "first_match sel (selector # rest) =
     (case sel selector of Some elem \<Rightarrow> Some elem | None \<Rightarrow> first_match sel rest)"

definition attr_get :: "Element \<Rightarrow> string \<Rightarrow> string \<Rightarrow> string" where
  "attr_get elem key dflt = (case map_of (el_attrs elem) key of Some v \<Rightarrow> v | None \<Rightarrow> dflt)"

definition author_selectors :: "string list" where
  "author_selectors =
     [''meta[name=\"author\"]'', ''meta[property=\"article:author\"]'', ''.author'', ''.byline'',
      ''[rel=\"author\"]'']"

definition date_selectors :: "string list" where
  "date_selectors =
     [''meta[property=\"article:published_time\"]'', ''meta[name=\"date\"]'',
      ''meta[name=\"pubdate\"]'', ''time[datetime]'', ''.date'', ''.published'']"

definition extract_metadata_from_html :: "'w Env \<Rightarrow> string \<Rightarrow> string \<Rightarrow> exn + Metadata" where
  "extract_metadata_from_html env html_content url' =
     (case urlparse_netloc url' of
        Inl e \<Rightarrow> Inl e
      | Inr netloc \<Rightarrow>
          (let author' =
                 (case first_match (select_one env html_content) author_selectors of
                    None \<Rightarrow> ''Unknown''
                  | Some elem \<Rightarrow>
                      if el_name elem = ''meta'' then attr_get elem ''content'' ''Unknown''
                      else py_strip (el_text elem));
               publish_date' =
                 (case first_match (select_one env html_content) date_selectors of
                    None \<Rightarrow> None
                  | Some elem \<Rightarrow>
                      (let date_str =
                             (if el_name elem = ''meta'' then attr_get elem ''content'' []
                              else if el_name elem = ''time'' then attr_get elem ''datetime'' []
                              else py_strip (el_text elem))
                       in if date_str \<noteq> []
                          then (case dateutil_parse env date_str of
                                  Some parsed \<Rightarrow> Some parsed
                                | None \<Rightarrow> Some date_str)
                          else None))
           in Inr \<lparr>meta_author = author', meta_publish_date = publish_date',
                   meta_domain = netloc, meta_extraction_method = None, meta_error = None\<rparr>))"

text \<open>
\<open>_extract_with_readability\<close> (lines 76--101).
\<close>

definition extract_with_readability ::
  "'w Env \<Rightarrow> string \<Rightarrow> 'w \<Rightarrow> StrategyResult option \<times> 'w" where
  "extract_with_readability env url' w =
     (case readability_page env url' w of
        (Inl e, w1) \<Rightarrow> (None, w1)
      | (Inr page, w1) \<Rightarrow>
          (case extract_metadata_from_html env (rp_html page) url' of
             Inl e \<Rightarrow> (None, w1)
           | Inr metadata \<Rightarrow>
               (Some \<lparr>res_title = (if rp_title page \<noteq> [] then rp_title page
                                    else ''No title found''),
                      res_summary = generate_summary (rp_text page) 300,
                      res_content = rp_text page,
                      res_metadata =
                        metadata\<lparr>meta_extraction_method := Some ''readability-lxml''\<rparr>\<rparr>, w1)))"

text \<open>
  \<open>_extract_with_beautifulsoup\<close> (lines 103--158). \<open>beautifulsoup_failed\<close> is its
  \<open>except\<close> block, which returns a dictionary of its own; the block calls \<open>urlparse\<close>
  again, so it can raise itself.
\<close>

definition beautifulsoup_failed :: "exn \<Rightarrow> string \<Rightarrow> 'w \<Rightarrow> (exn + StrategyResult) \<times> 'w" where
  "beautifulsoup_failed e url' w =
     (case urlparse_netloc url' of
        Inl e' \<Rightarrow> (Inl e', w)
      | Inr netloc \<Rightarrow>
          (Inr \<lparr>res_title = ''Extraction Failed'',
                 res_summary = ''Could not extract content: '' @ exn_str e,
                 res_content = [],
                 res_metadata =
                   \<lparr>meta_author = ''Unknown'', meta_publish_date = None, meta_domain = netloc,
                    meta_extraction_method = Some ''beautifulsoup_failed'',
                    meta_error = Some (exn_str e)\<rparr>\<rparr>, w))"

definition extract_with_beautifulsoup ::
  "'w Env \<Rightarrow> string \<Rightarrow> 'w \<Rightarrow> (exn + StrategyResult) \<times> 'w" where
  "extract_with_beautifulsoup env url' w =
     (case soup_page env url' w of
        (Inl e, w1) \<Rightarrow> beautifulsoup_failed e url' w1
      | (Inr page, w1) \<Rightarrow>
          (let content = clean_text (sp_text page)
           in case extract_metadata_from_html env (sp_html page) url' of
                Inl e \<Rightarrow> beautifulsoup_failed e url' w1
              | Inr metadata \<Rightarrow>
                  (Inr \<lparr>res_title = (case sp_title page of Some t \<Rightarrow> py_strip t
                                        | None \<Rightarrow> ''No title found''),
                         res_summary = generate_summary content 300,
                         res_content = content,
                         res_metadata =
                           metadata\<lparr>meta_extraction_method := Some ''beautifulsoup''\<rparr>\<rparr>, w1)))"

subsection \<open>The coordinator\<close>

text \<open>
  \<open>_format_result\<close> (lines 248--270) truncates the content and wraps the result; it calls
  \<open>urlparse\<close> for the \<open>website\<close> entry. \<open>usable r\<close> is the test
  \<open>r and r.get('content')\<close>.
\<close>

definition format_result ::
  "'w Env \<Rightarrow> StrategyResult \<Rightarrow> string \<Rightarrow> int \<Rightarrow> 'w \<Rightarrow> (exn + ExtractedDocument) \<times> 'w" where
  "format_result env result url' max_length w =
     (let content = truncate_content (res_content result) max_length
      in case urlparse_netloc url' of
           Inl e \<Rightarrow> (Inl e, w)
         | Inr netloc \<Rightarrow>
             (case now_isoformat env w of
                (stamp, w1) \<Rightarrow>
                  (Inr \<lparr>doc_url = url', doc_title = res_title result,
                         doc_summary = res_summary result, doc_content = content,
                         doc_metadata = res_metadata result,
                         doc_source_info =
                           \<lparr>link = url', website = netloc, extraction_timestamp = stamp\<rparr>\<rparr>,
                   w1)))"

definition usable :: "StrategyResult option \<Rightarrow> bool" where
  "usable r = (case r of None \<Rightarrow> False | Some result \<Rightarrow> res_content result \<noteq> [])"

text \<open>
  \<open>extract_content\<close> (lines 21--53): \<open>extract_content_try\<close> is the body of the \<open>try\<close>,
  and the second case of \<open>extract_content\<close> is the \<open>except Exception\<close> block, which
  evaluates \<open>urlparse(url).netloc\<close> before it reads the clock.
\<close>

definition extract_content_try ::
  "'w Env \<Rightarrow> string \<Rightarrow> int \<Rightarrow> 'w \<Rightarrow> (exn + ExtractedDocument) \<times> 'w" where
  "extract_content_try env url' max_length w =
     (case extract_with_newspaper env url' w of
        (newspaper_result, w1) \<Rightarrow>
          if usable newspaper_result
          then format_result env (the newspaper_result) url' max_length w1
          else (case extract_with_readability env url' w1 of
                  (readability_result, w2) \<Rightarrow>
                    if usable readability_result
                    then format_result env (the readability_result) url' max_length w2
                    else (case extract_with_beautifulsoup env url' w2 of
                            (Inl e, w3) \<Rightarrow> (Inl e, w3)
                          | (Inr bs_result, w3) \<Rightarrow>
                              format_result env bs_result url' max_length w3)))"

definition extract_content ::
  "'w Env \<Rightarrow> string \<Rightarrow> int \<Rightarrow> 'w \<Rightarrow> (exn + ExtractedDocument) \<times> 'w" where
  "extract_content env url' max_length w =
     (case extract_content_try env url' max_length w of
        (Inr document, w1) \<Rightarrow> (Inr document, w1)
      | (Inl e, w1) \<Rightarrow>
          (case urlparse_netloc url' of
             Inl e' \<Rightarrow> (Inl e', w1)
           | Inr netloc \<Rightarrow>
               (case now_isoformat env w1 of
                  (stamp, w2) \<Rightarrow>
                    (Inr \<lparr>doc_url = url', doc_title = ''Content Extraction Failed'',
                           doc_summary = ''Could not extract content: '' @ exn_str e,
                           doc_content = [],
                           doc_metadata =
                             \<lparr>meta_author = ''Unknown'', meta_publish_date = None,
                              meta_domain = netloc, meta_extraction_method = Some ''failed'',
                              meta_error = Some (exn_str e)\<rparr>,
                           doc_source_info =
                             \<lparr>link = url', website = netloc, extraction_timestamp = stamp\<rparr>\<rparr>,
                     w2))))"

text \<open>
  \<open>extract_multiple_urls\<close> (lines 272--280): \<open>results[url] = \<dots>\<close> for each URL in turn;
  an exception of \<open>extract_content\<close> leaves the loop.
\<close>

fun extract_loop ::
  "'w Env \<Rightarrow> string list \<Rightarrow> int \<Rightarrow> (string \<times> ExtractedDocument) list \<Rightarrow> 'w
     \<Rightarrow> (exn + (string \<times> ExtractedDocument) list) \<times> 'w" where
  "extract_loop env [] max_length_per_url results w = (Inr results, w)"
| "extract_loop env (url' # rest) max_length_per_url results w =
     (case extract_content env url' max_length_per_url w of
        (Inl e, w1) \<Rightarrow> (Inl e, w1)
      | (Inr document, w1) \<Rightarrow>
          extract_loop env rest max_length_per_url (dict_set results url' document) w1)"

definition extract_multiple_urls ::
  "'w Env \<Rightarrow> string list \<Rightarrow> int \<Rightarrow> 'w
     \<Rightarrow> (exn + (string \<times> ExtractedDocument) list) \<times> 'w" where
  "extract_multiple_urls env urls max_length_per_url w =
     extract_loop env urls max_length_per_url [] w"

text \<open>
  All three strategies fail on a URL: the first two give no usable result, and the third
  raises or returns a result with empty content. Its \<open>except\<close> block returns a dictionary
  with empty content, so this covers a failed fetch as well as a page whose text is empty after
  cleanup. \<open>p\<close> is the outcome of the fetch of the third strategy and \<open>w3\<close> the state of
  the world after it.
\<close>

definition all_strategies_failed ::
  "'w Env \<Rightarrow> string \<Rightarrow> 'w \<Rightarrow> exn + SoupPage \<Rightarrow> 'w \<Rightarrow> bool" where
  "all_strategies_failed env url' w p w3 \<longleftrightarrow>
     (case extract_with_newspaper env url' w of
        (r1, w1) \<Rightarrow>
          \<not> usable r1
          \<and> (case extract_with_readability env url' w1 of
                (r2, w2) \<Rightarrow>
                  \<not> usable r2
                  \<and> soup_page env url' w2 = (p, w3)
                  \<and> (case extract_with_beautifulsoup env url' w2 of
                        (Inl e, w4) \<Rightarrow> True
                      | (Inr r3, w4) \<Rightarrow> res_content r3 = [])))"
section \<open>Sample inputs\<close>

text \<open>A registry holding the source of the specification's end-to-end example.\<close>

definition jane_registry :: CitationManager where
  "jane_registry =
     \<lparr>sources = [(''example.com_hello_world_example'',
         \<lparr>url = ''https://example.com/a'', title = ''Hello World Example'', author = ''Jane Doe'',
          publish_date = Some ''2023-05-01'', domain = ''example.com'',
          access_date = ''2026-01-01'', content_type = ''webpage''\<rparr>)],
      citations = []\<rparr>"

text \<open>Registries of the identifier examples.\<close>

definition www_registry :: CitationManager where
  "www_registry =
     \<lparr>sources = [(''awww.x_t'',
         \<lparr>url = ''https://awwwwww..x/'', title = ''T'', author = ''Unknown'',
          publish_date = None, domain = ''awwwwww..x'',
          access_date = ''2026-01-01'', content_type = ''webpage''\<rparr>)],
      citations = []\<rparr>"

definition example_source :: SourceMetadata where
  "example_source =
     \<lparr>url = ''https://example.com/a'', title = ''Hello World Example'', author = ''Unknown'',
      publish_date = None, domain = ''example.com'',
      access_date = ''2026-01-01'', content_type = ''webpage''\<rparr>"

definition once_registry :: CitationManager where
  "once_registry =
     \<lparr>sources = [(''example.com_hello_world_example'', example_source)], citations = []\<rparr>"

definition twice_registry :: CitationManager where
  "twice_registry =
     \<lparr>sources = [(''example.com_hello_world_example'', example_source),
                 (''example.com_hello_world_example_1'', example_source)],
      citations = []\<rparr>"

text \<open>
  Four sources whose authors and domains tie two to two; the first-registered value is the
  lexicographically larger one.
\<close>

definition tie_registry :: CitationManager where
  "tie_registry =
     \<lparr>sources =
        [(''k1'', \<lparr>url = ''https://zeta.org/1'', title = ''One'', author = ''Zed'',
                  publish_date = Some ''2023'', domain = ''zeta.org'',
                  access_date = ''2026-01-01'', content_type = ''webpage''\<rparr>),
         (''k2'', \<lparr>url = ''https://alpha.org/2'', title = ''Two'', author = ''Amy'',
                  publish_date = None, domain = ''alpha.org'',
                  access_date = ''2026-01-01'', content_type = ''webpage''\<rparr>),
         (''k3'', \<lparr>url = ''https://alpha.org/3'', title = ''Three'', author = ''Amy'',
                  publish_date = Some ''May 1999'', domain = ''alpha.org'',
                  access_date = ''2026-01-01'', content_type = ''webpage''\<rparr>),
         (''k4'', \<lparr>url = ''https://zeta.org/4'', title = ''Four'', author = ''Zed'',
                  publish_date = None, domain = ''zeta.org'',
                  access_date = ''2026-01-01'', content_type = ''webpage''\<rparr>)],
      citations = []\<rparr>"

text \<open>
  A machine without network: every fetch raises; the world counts the clock readings.
\<close>

definition offline_env :: "nat Env" where
  "offline_env =
     \<lparr>newspaper_article = (\<lambda>u w. (Inl (LibraryError ''Article download failed''), w)),
      readability_page = (\<lambda>u w. (Inl (LibraryError ''Connection refused''), w)),
      soup_page = (\<lambda>u w. (Inl (LibraryError ''Connection refused''), w)),
      select_one = (\<lambda>h s. None),
      dateutil_parse = (\<lambda>d. None),
      now_isoformat = (\<lambda>w. (''2026-01-01T00:00:0'' @ str_nat w, Suc w))\<rparr>"

text \<open>
  A site whose pages hold a title and no text: every fetch succeeds.
\<close>

definition blank_env :: "nat Env" where
  "blank_env =
     \<lparr>newspaper_article = (\<lambda>u w. (Inr \<lparr>art_title = ''Shop'', art_summary = [], art_text = [],
                                         art_authors = [], art_publish_date = None\<rparr>, w)),
      readability_page = (\<lambda>u w. (Inr \<lparr>rp_title = ''Shop'', rp_text = [],
                                        rp_html = ''<title>Shop</title>''\<rparr>, w)),
      soup_page = (\<lambda>u w. (Inr \<lparr>sp_title = Some ''Shop'', sp_text = [],
                                 sp_html = ''<title>Shop</title>''\<rparr>, w)),
      select_one = (\<lambda>h s. None),
      dateutil_parse = (\<lambda>d. None),
      now_isoformat = (\<lambda>w. (''2026-01-01T00:00:0'' @ str_nat w, Suc w))\<rparr>"
section \<open>Facts about the helpers\<close>


lemma py_rfind_lower: "- 1 \<le> py_rfind c xs"
  by (induction xs) (auto simp: Let_def)

lemma py_rfind_upper: "py_rfind c xs < int (length xs)"
  by (induction xs) (auto simp: Let_def)

lemma py_rfind_hit: "0 \<le> py_rfind c xs \<Longrightarrow> xs ! nat (py_rfind c xs) = c"
proof (induction xs)
  case Nil
  then show ?case by simp
next
  case (Cons x xs)
  show ?case
  proof (cases "0 \<le> py_rfind c xs")
    case True
    then have "nat (py_rfind c xs + 1) = Suc (nat (py_rfind c xs))" by simp
    with True Cons.IH show ?thesis by (simp add: Let_def)
  next
    case False
    with Cons.prems show ?thesis by (simp add: Let_def split: if_splits)
  qed
qed

lemma py_rfind_last:
  assumes "0 \<le> py_rfind c xs"
  shows "last (take (nat (py_rfind c xs + 1)) xs) = c"
proof -
  let ?r = "nat (py_rfind c xs)"
  have lt: "?r < length xs" using assms py_rfind_upper [of c xs] by simp
  have eq: "nat (py_rfind c xs + 1) = Suc ?r" using assms by simp
  have "take (Suc ?r) xs = take ?r xs @ [xs ! ?r]"
    using lt by (simp add: take_Suc_conv_app_nth)
  then show ?thesis using eq py_rfind_hit [OF assms] by simp
qed

lemma dict_get_absent: "k \<notin> set (dict_keys d) \<Longrightarrow> dict_get d k = None"
  by (simp add: dict_get_def dict_keys_def map_of_eq_None_iff)

section \<open>Truncation (C2)\<close>


text \<open>
  C2, as stated, fails on the code. With budget 5 and content \<open>abcd.fgh\<close> the last period
  of the first five characters is at position 4, which is exactly 80\% of the budget: the
  claim truncates there and returns \<open>abcd.\<close>, the code appends the ellipsis to the
  five-character slice.
\<close>

theorem truncate_at_80_percent_counterexample:
  "truncate_content ''abcd.fgh'' 5 = ''abcd....'' \<and> truncate_spec ''abcd.fgh'' 5 = ''abcd.''
   \<and> truncate_content ''abcd.fgh'' 5 \<noteq> truncate_spec ''abcd.fgh'' 5"
  by (simp add: truncate_content_def truncate_spec_def py_slice_to_def Let_def)

text \<open>
  C2 (amended): for every content and every positive budget, content no longer than the
  budget is returned unchanged; longer content gives a result of at most budget + 3
  characters, which is the slice up to and including the last period of the first
  \<open>max_length\<close> characters when that period's position is strictly greater than 80\% of the
  budget (the result then ends with a period and carries no ellipsis), and otherwise the
  first \<open>max_length\<close> characters followed by \<open>...\<close>.
\<close>

theorem truncate_content_cases:
  assumes "0 < max_length"
  shows "(int (length content) \<le> max_length \<longrightarrow> truncate_content content max_length = content)
    \<and> (int (length content) > max_length \<longrightarrow>
         int (length (truncate_content content max_length)) \<le> max_length + 3
       \<and> (5 * py_rfind (CHR ''.'') (take (nat max_length) content) > 4 * max_length \<longrightarrow>
            truncate_content content max_length =
              take (nat (py_rfind (CHR ''.'') (take (nat max_length) content) + 1)) content
          \<and> last (truncate_content content max_length) = CHR ''.'')
       \<and> (\<not> 5 * py_rfind (CHR ''.'') (take (nat max_length) content) > 4 * max_length \<longrightarrow>
            truncate_content content max_length = take (nat max_length) content @ ''...''))"
proof -
  let ?c1 = "take (nat max_length) content"
  let ?p = "py_rfind (CHR ''.'') ?c1"
  have short: "int (length content) \<le> max_length \<Longrightarrow> truncate_content content max_length = content"
    by (simp add: truncate_content_def)
  have slice: "py_slice_to max_length content = ?c1"
    using assms by (simp add: py_slice_to_def)
  have p_lt: "?p < max_length"
    using py_rfind_upper [of "CHR ''.''" ?c1] assms by simp
  {
    assume long: "int (length content) > max_length"
    assume big: "5 * ?p > 4 * max_length"
    from big assms have p0: "0 \<le> ?p" by simp
    have "py_slice_to (?p + 1) ?c1 = take (nat (?p + 1)) ?c1"
      using p0 by (simp add: py_slice_to_def)
    also have "\<dots> = take (nat (?p + 1)) content"
      using p_lt p0 by (simp add: min_def)
    finally have res: "truncate_content content max_length = take (nat (?p + 1)) content"
      using long big by (simp add: truncate_content_def slice Let_def)
    have "last (take (nat (?p + 1)) ?c1) = CHR ''.''"
      using py_rfind_last [OF p0] .
    moreover have "take (nat (?p + 1)) ?c1 = take (nat (?p + 1)) content"
      using p_lt p0 by (simp add: min_def)
    ultimately have lst: "last (truncate_content content max_length) = CHR ''.''"
      using res by simp
    have len: "int (length (truncate_content content max_length)) \<le> max_length + 3"
      using res p_lt p0 by simp
    note res lst len
  }
  note keep = this
  {
    assume long: "int (length content) > max_length"
    assume small: "\<not> 5 * ?p > 4 * max_length"
    have res: "truncate_content content max_length = ?c1 @ ''...''"
      using long small by (simp add: truncate_content_def slice Let_def)
    have len: "int (length (truncate_content content max_length)) \<le> max_length + 3"
      using res assms by simp
    note res len
  }
  note dots = this
  show ?thesis using short keep dots by blast
qed

theorem truncate_content_cases_witness:
  "(0::int) < 10
   \<and> truncate_content ''One two x. Three four'' 10 = ''One two x.''
   \<and> last (truncate_content ''One two x. Three four'' 10) = CHR ''.''
   \<and> truncate_content ''abcdefghijklmnop'' 10 = ''abcdefghij...''
   \<and> truncate_content ''short'' 10 = ''short''"
  using truncate_content_cases [of 10 "''One two x. Three four''"]
        truncate_content_cases [of 10 "''abcdefghijklmnop''"]
        truncate_content_cases [of 10 "''short''"]
  by (simp add: Let_def)
section \<open>Source identifiers (C4)\<close>

lemma source_id_loop_fresh: "source_id_loop ks original_id source_id counter \<notin> set ks"
  by (induction ks original_id source_id counter rule: source_id_loop.induct)
     (subst source_id_loop.simps, simp)

lemma source_id_loop_free: "source_id \<notin> set ks \<Longrightarrow> source_id_loop ks original_id source_id counter = source_id"
  by (subst source_id_loop.simps) simp

lemma source_id_loop_first_free:
  "source_id \<in> set ks \<Longrightarrow>
   \<exists>k\<ge>counter. source_id_loop ks original_id source_id counter = suffixed original_id k
      \<and> suffixed original_id k \<notin> set ks
      \<and> (\<forall>j. counter \<le> j \<and> j < k \<longrightarrow> suffixed original_id j \<in> set ks)"
proof (induction ks original_id source_id counter rule: source_id_loop.induct)
  case (1 ks original_id source_id counter)
  have unfold: "source_id_loop ks original_id source_id counter
      = source_id_loop ks original_id (suffixed original_id counter) (counter + 1)"
    using "1.prems" by (subst source_id_loop.simps) simp
  show ?case
  proof (cases "suffixed original_id counter \<in> set ks")
    case True
    from "1.IH" [OF "1.prems" True] obtain k where k: "counter + 1 \<le> k"
      "source_id_loop ks original_id (suffixed original_id counter) (counter + 1) = suffixed original_id k"
      "suffixed original_id k \<notin> set ks"
      "\<forall>j. counter + 1 \<le> j \<and> j < k \<longrightarrow> suffixed original_id j \<in> set ks"
      by blast
    have "\<forall>j. counter \<le> j \<and> j < k \<longrightarrow> suffixed original_id j \<in> set ks"
    proof (intro allI impI)
      fix j assume j: "counter \<le> j \<and> j < k"
      show "suffixed original_id j \<in> set ks"
      proof (cases "j = counter")
        case True
        then show ?thesis using \<open>suffixed original_id counter \<in> set ks\<close> by simp
      next
        case False
        with j have "counter + 1 \<le> j \<and> j < k" by simp
        with k(4) show ?thesis by blast
      qed
    qed
    with k unfold show ?thesis by (intro exI [of _ k]) simp
  next
    case False
    then have "source_id_loop ks original_id (suffixed original_id counter) (counter + 1)
        = suffixed original_id counter"
      by (rule source_id_loop_free)
    with unfold False show ?thesis by (intro exI [of _ counter]) auto
  qed
qed

lemma dict_set_fresh: "k \<notin> set (dict_keys d) \<Longrightarrow> dict_set d k v = d @ [(k, v)]"
  by (induction d) (auto simp: dict_keys_def)

lemma add_source_step:
  assumes "add_source m today url' title' author' publish_date' content_type' = Inr (source_id, m')"
  shows "source_id \<notin> set (dict_keys (sources m))
       \<and> dict_keys (sources m') = dict_keys (sources m) @ [source_id]
       \<and> citations m' = citations m"
proof -
  from assms obtain n where n: "urlparse_netloc url' = Inr n"
    by (auto simp: add_source_def split: sum.splits)
  let ?b = "base_source_id n title'"
  have sid: "source_id = source_id_loop (dict_keys (sources m)) ?b ?b 1"
    using assms n by (auto simp: add_source_def generate_source_id_def Let_def)
  then have fresh: "source_id \<notin> set (dict_keys (sources m))"
    using source_id_loop_fresh by simp
  obtain md where m': "m' = m\<lparr>sources := dict_set (sources m) source_id md\<rparr>"
    using assms n by (auto simp: add_source_def generate_source_id_def Let_def)
  show ?thesis using fresh m' by (simp add: dict_set_fresh) (simp add: dict_keys_def)
qed

lemma add_source_id:
  assumes "add_source m today url' title' author' publish_date' content_type' = Inr (source_id, m')"
    and "urlparse_netloc url' = Inr n"
  shows "source_id = source_id_loop (dict_keys (sources m)) (base_source_id n title') (base_source_id n title') 1"
  using assms by (auto simp: add_source_def generate_source_id_def Let_def)

lemma add_sources_keys:
  "add_sources m today reqs = (ids, m') \<Longrightarrow> distinct (dict_keys (sources m)) \<Longrightarrow>
   dict_keys (sources m') = dict_keys (sources m) @ ids \<and> distinct (dict_keys (sources m'))"
proof (induction reqs arbitrary: m ids m')
  case Nil
  then show ?case by simp
next
  case (Cons req reqs)
  obtain u t a p c where req: "req = (u, t, a, p, c)" by (cases req) auto
  show ?case
  proof (cases "add_source m today u t a p c")
    case (Inl e)
    with Cons.prems req have "add_sources m today reqs = (ids, m')" by simp
    from Cons.IH [OF this Cons.prems(2)] show ?thesis .
  next
    case (Inr r)
    obtain sid m1 where r: "r = (sid, m1)" by (cases r) auto
    obtain ids1 m2 where rest: "add_sources m1 today reqs = (ids1, m2)" by (cases "add_sources m1 today reqs") auto
    from Cons.prems(1) req Inr r rest have ids: "ids = sid # ids1" and m2: "m' = m2" by simp_all
    from add_source_step [of m today u t a p c sid m1] Inr r
    have step: "sid \<notin> set (dict_keys (sources m))" "dict_keys (sources m1) = dict_keys (sources m) @ [sid]"
      by simp_all
    have d1: "distinct (dict_keys (sources m1))" using step Cons.prems(2) by simp
    from Cons.IH [OF rest d1] have a: "dict_keys (sources m2) = dict_keys (sources m1) @ ids1"
      and b: "distinct (dict_keys (sources m2))" by blast+
    have "dict_keys (sources m') = dict_keys (sources m) @ ids"
      using a step(2) ids m2 by simp
    moreover have "distinct (dict_keys (sources m'))" using b m2 by simp
    ultimately show ?thesis by simp
  qed
qed

lemma example_netloc: "urlparse_netloc ''https://example.com/a'' = Inr ''example.com''"
  by code_simp

lemma example_base: "base_source_id ''example.com'' ''Hello World Example'' = ''example.com_hello_world_example''"
  by code_simp

lemma example_suffix: "suffixed ''example.com_hello_world_example'' (Suc 0) = ''example.com_hello_world_example_1''"
  by code_simp

lemma example_first:
  "add_source init_manager today ''https://example.com/a'' ''Hello World Example'' ''Unknown'' None ''webpage''
     = Inr (''example.com_hello_world_example'',
            \<lparr>sources = [(''example.com_hello_world_example'',
                post_init today \<lparr>url = ''https://example.com/a'', title = ''Hello World Example'',
                  author = ''Unknown'', publish_date = None, domain = ''example.com'',
                  access_date = today, content_type = ''webpage''\<rparr>)],
             citations = []\<rparr>)"
  by (simp add: add_source_def generate_source_id_def example_netloc example_base init_manager_def
        dict_keys_def source_id_loop_free)

lemma example_second:
  assumes "dict_keys (sources m) = [''example.com_hello_world_example'']"
  shows "map_sum id fst (add_source m today ''https://example.com/a'' ''Hello World Example'' ''Unknown'' None ''webpage'')
     = Inr ''example.com_hello_world_example_1''"
proof -
  let ?b = "''example.com_hello_world_example''"
  have "source_id_loop [?b] ?b ?b (Suc 0) = source_id_loop [?b] ?b (suffixed ?b (Suc 0)) (Suc 0 + 1)"
    by (subst source_id_loop.simps) simp
  also have "\<dots> = suffixed ?b (Suc 0)"
    by (rule source_id_loop_free) (simp add: example_suffix)
  finally have "source_id_loop [?b] ?b ?b 1 = ''example.com_hello_world_example_1''"
    by (simp add: example_suffix)
  then show ?thesis
    using assms by (simp add: add_source_def generate_source_id_def example_netloc example_base)
qed

text \<open>
  C4, as stated, fails on the code in its description of the base identifier: the code
  removes every occurrence of \<open>www.\<close> from the host, not only a leading one. Registering
  \<open>https://awwwwww..x/\<close> with title \<open>T\<close> stores the identifier \<open>awww.x_t\<close>. For the
  next source, \<open>https://awww.x/\<close> with title \<open>T\<close>, the base identifier of the claim is
  \<open>awww.x_t\<close>, which collides, so the claim assigns \<open>awww.x_t_1\<close>; the code assigns
  \<open>ax_t\<close>.
\<close>

theorem www_inside_host_counterexample:
  "add_source init_manager ''2026-01-01'' ''https://awwwwww..x/'' ''T'' ''Unknown'' None ''webpage''
      = Inr (''awww.x_t'', www_registry)
   \<and> urlparse_netloc ''https://awww.x/'' = Inr ''awww.x''
   \<and> base_source_id_spec ''awww.x'' ''T'' = ''awww.x_t''
   \<and> ''awww.x_t'' \<in> set (dict_keys (sources www_registry))
   \<and> map_sum id fst (add_source www_registry ''2026-01-01'' ''https://awww.x/'' ''T'' ''Unknown'' None ''webpage'')
      = Inr ''ax_t''
   \<and> ''ax_t'' \<noteq> suffixed ''awww.x_t'' 1"
  by code_simp

text \<open>
  C4 (amended): after any sequence of \<open>add_source\<close> calls on an empty registry the keys of
  the registry are the returned identifiers in registration order, pairwise distinct. The
  base identifier of a new source is its host with every occurrence of \<open>www.\<close> removed,
  joined with the first three tokens of the lower-cased, punctuation-stripped title; a call
  that returns gives the base identifier when it is free, and otherwise the base identifier
  with the first free suffix \<open>_1\<close>, \<open>_2\<close>, \<open>\<dots>\<close>; the new key is appended. Registering
  \<open>https://example.com/a\<close> with title \<open>Hello World Example\<close> twice yields
  \<open>example.com_hello_world_example\<close> and \<open>example.com_hello_world_example_1\<close>.
\<close>

theorem source_ids_unique_and_suffixed:
  "(add_sources init_manager today reqs = (ids, m') \<longrightarrow>
      dict_keys (sources m') = ids \<and> distinct ids)
   \<and> (add_source m today url' title' author' publish_date' content_type' = Inr (source_id, m1)
        \<and> urlparse_netloc url' = Inr netloc \<longrightarrow>
          source_id \<notin> set (dict_keys (sources m))
        \<and> dict_keys (sources m1) = dict_keys (sources m) @ [source_id]
        \<and> (base_source_id netloc title' \<notin> set (dict_keys (sources m)) \<longrightarrow>
              source_id = base_source_id netloc title')
        \<and> (base_source_id netloc title' \<in> set (dict_keys (sources m)) \<longrightarrow>
              (\<exists>k\<ge>1. source_id = suffixed (base_source_id netloc title') k
                 \<and> (\<forall>j. 1 \<le> j \<and> j < k \<longrightarrow>
                        suffixed (base_source_id netloc title') j \<in> set (dict_keys (sources m))))))
   \<and> (\<exists>m2 m3.
         add_source init_manager today ''https://example.com/a'' ''Hello World Example'' ''Unknown'' None ''webpage''
           = Inr (''example.com_hello_world_example'', m2)
       \<and> add_source m2 today ''https://example.com/a'' ''Hello World Example'' ''Unknown'' None ''webpage''
           = Inr (''example.com_hello_world_example_1'', m3))"
proof (intro conjI impI)
  assume run: "add_sources init_manager today reqs = (ids, m')"
  have "distinct (dict_keys (sources init_manager))" by (simp add: init_manager_def dict_keys_def)
  from add_sources_keys [OF run this]
  have k: "dict_keys (sources m') = dict_keys (sources init_manager) @ ids"
    and d: "distinct (dict_keys (sources m'))" by blast+
  have k': "dict_keys (sources m') = ids"
    using k by (simp add: init_manager_def dict_keys_def)
  show "dict_keys (sources m') = ids" by (rule k')
  show "distinct ids" using d unfolding k' .
next
  assume h: "add_source m today url' title' author' publish_date' content_type' = Inr (source_id, m1)
        \<and> urlparse_netloc url' = Inr netloc"
  let ?b = "base_source_id netloc title'"
  let ?ks = "dict_keys (sources m)"
  from h have step: "source_id \<notin> set ?ks \<and> dict_keys (sources m1) = ?ks @ [source_id] \<and> citations m1 = citations m"
    using add_source_step by blast
  from h have sid: "source_id = source_id_loop ?ks ?b ?b 1"
    using add_source_id by blast
  show "source_id \<notin> set ?ks" using step by blast
  show "dict_keys (sources m1) = ?ks @ [source_id]" using step by blast
  {
    assume "?b \<notin> set ?ks"
    then show "source_id = ?b" using sid source_id_loop_free by simp
  }
  {
    assume "?b \<in> set ?ks"
    from source_id_loop_first_free [OF this, where original_id = ?b and counter = 1] sid
    show "\<exists>k\<ge>1. source_id = suffixed ?b k \<and> (\<forall>j. 1 \<le> j \<and> j < k \<longrightarrow> suffixed ?b j \<in> set ?ks)"
      by auto
  }
next
  let ?m2 = "\<lparr>sources = [(''example.com_hello_world_example'',
                post_init today \<lparr>url = ''https://example.com/a'', title = ''Hello World Example'',
                  author = ''Unknown'', publish_date = None, domain = ''example.com'',
                  access_date = today, content_type = ''webpage''\<rparr>)],
             citations = []\<rparr>"
  have keys: "dict_keys (sources ?m2) = [''example.com_hello_world_example'']"
    by (simp add: dict_keys_def)
  obtain r where r: "add_source ?m2 today ''https://example.com/a'' ''Hello World Example'' ''Unknown'' None ''webpage'' = r"
    by simp
  from example_second [OF keys, of today] r
  obtain m3 where "r = Inr (''example.com_hello_world_example_1'', m3)"
    by (cases r) auto
  with r example_first [of today]
  show "\<exists>m2 m3.
         add_source init_manager today ''https://example.com/a'' ''Hello World Example'' ''Unknown'' None ''webpage''
           = Inr (''example.com_hello_world_example'', m2)
       \<and> add_source m2 today ''https://example.com/a'' ''Hello World Example'' ''Unknown'' None ''webpage''
           = Inr (''example.com_hello_world_example_1'', m3)"
    by blast
qed

theorem source_ids_unique_and_suffixed_witness:
  "add_sources init_manager ''2026-01-01''
       [(''https://example.com/a'', ''Hello World Example'', ''Unknown'', None, ''webpage''),
        (''https://example.com/a'', ''Hello World Example'', ''Unknown'', None, ''webpage'')]
     = ([''example.com_hello_world_example'', ''example.com_hello_world_example_1''], twice_registry)
   \<and> dict_keys (sources twice_registry)
       = [''example.com_hello_world_example'', ''example.com_hello_world_example_1'']
   \<and> distinct [''example.com_hello_world_example'', ''example.com_hello_world_example_1'']
   \<and> add_source once_registry ''2026-01-01'' ''https://example.com/a'' ''Hello World Example''
         ''Unknown'' None ''webpage''
       = Inr (''example.com_hello_world_example_1'', twice_registry)
   \<and> urlparse_netloc ''https://example.com/a'' = Inr ''example.com''
   \<and> base_source_id ''example.com'' ''Hello World Example'' \<in> set (dict_keys (sources once_registry))
   \<and> ''example.com_hello_world_example_1'' \<notin> set (dict_keys (sources once_registry))
   \<and> ''example.com_hello_world_example_1''
       = suffixed (base_source_id ''example.com'' ''Hello World Example'') 1"
proof -
  have run: "add_sources init_manager ''2026-01-01''
       [(''https://example.com/a'', ''Hello World Example'', ''Unknown'', None, ''webpage''),
        (''https://example.com/a'', ''Hello World Example'', ''Unknown'', None, ''webpage'')]
     = ([''example.com_hello_world_example'', ''example.com_hello_world_example_1''], twice_registry)"
    by code_simp
  have step: "add_source once_registry ''2026-01-01'' ''https://example.com/a'' ''Hello World Example''
         ''Unknown'' None ''webpage''
       = Inr (''example.com_hello_world_example_1'', twice_registry)"
    by code_simp
  have net: "urlparse_netloc ''https://example.com/a'' = Inr ''example.com''"
    by code_simp
  have coll: "base_source_id ''example.com'' ''Hello World Example'' \<in> set (dict_keys (sources once_registry))"
    by code_simp
  have suffix: "''example.com_hello_world_example_1''
       = suffixed (base_source_id ''example.com'' ''Hello World Example'') 1"
    by code_simp
  show ?thesis
    using run step net coll suffix
      source_ids_unique_and_suffixed [where today = "''2026-01-01''"
        and reqs = "[(''https://example.com/a'', ''Hello World Example'', ''Unknown'', None, ''webpage''),
                     (''https://example.com/a'', ''Hello World Example'', ''Unknown'', None, ''webpage'')]"
        and ids = "[''example.com_hello_world_example'', ''example.com_hello_world_example_1'']"
        and m' = twice_registry and m = once_registry
        and url' = "''https://example.com/a''" and title' = "''Hello World Example''"
        and author' = "''Unknown''" and publish_date' = None and content_type' = "''webpage''"
        and source_id = "''example.com_hello_world_example_1''" and ?m1.0 = twice_registry
        and netloc = "''example.com''"]
    by blast
qed

section \<open>Summary generation (C5)\<close>

lemma summary_loop_prefix:
  "\<exists>k\<le>length pieces.
      summary_loop pieces acc cur n = acc @ take k (map py_strip pieces)
    \<and> (\<forall>i<k. map py_strip pieces ! i \<noteq> []
           \<and> int (cur + sum_list (map length (take (Suc i) (map py_strip pieces)))) < n)
    \<and> (k < length pieces \<longrightarrow>
          map py_strip pieces ! k = []
        \<or> \<not> int (cur + sum_list (map length (take (Suc k) (map py_strip pieces)))) < n)"
proof (induction pieces arbitrary: acc cur)
  case Nil
  show ?case by simp
next
  case (Cons p ps)
  let ?s = "py_strip p"
  let ?ss = "map py_strip ps"
  show ?case
  proof (cases "?s \<noteq> [] \<and> int (cur + length ?s) < n")
    case True
    from Cons.IH [of "acc @ [?s]" "cur + length ?s"] obtain k where k: "k \<le> length ps"
      "summary_loop ps (acc @ [?s]) (cur + length ?s) n = (acc @ [?s]) @ take k ?ss"
      "\<forall>i<k. ?ss ! i \<noteq> [] \<and> int (cur + length ?s + sum_list (map length (take (Suc i) ?ss))) < n"
      "k < length ps \<longrightarrow> ?ss ! k = []
          \<or> \<not> int (cur + length ?s + sum_list (map length (take (Suc k) ?ss))) < n"
      by blast
    have loop: "summary_loop (p # ps) acc cur n = acc @ take (Suc k) (map py_strip (p # ps))"
      using True k(2) by (simp add: Let_def)
    have ok: "\<forall>i<Suc k. map py_strip (p # ps) ! i \<noteq> []
           \<and> int (cur + sum_list (map length (take (Suc i) (map py_strip (p # ps))))) < n"
    proof (intro allI impI)
      fix i assume i: "i < Suc k"
      show "map py_strip (p # ps) ! i \<noteq> []
           \<and> int (cur + sum_list (map length (take (Suc i) (map py_strip (p # ps))))) < n"
      proof (cases i)
        case 0
        with True show ?thesis by simp
      next
        case (Suc i')
        with i have "i' < k" by simp
        with k(3) have "?ss ! i' \<noteq> []
            \<and> int (cur + length ?s + sum_list (map length (take (Suc i') ?ss))) < n" by blast
        with Suc show ?thesis by (simp add: add.assoc)
      qed
    qed
    have stop: "Suc k < length (p # ps) \<longrightarrow>
          map py_strip (p # ps) ! Suc k = []
        \<or> \<not> int (cur + sum_list (map length (take (Suc (Suc k)) (map py_strip (p # ps))))) < n"
      using k(4) by (simp add: add.assoc)
    from k(1) loop ok stop show ?thesis
      by (intro exI [of _ "Suc k"]) simp
  next
    case False
    then have loop: "summary_loop (p # ps) acc cur n = acc" by (auto simp: Let_def)
    from False have "map py_strip (p # ps) ! 0 = []
        \<or> \<not> int (cur + sum_list (map length (take (Suc 0) (map py_strip (p # ps))))) < n"
      by auto
    with loop show ?thesis by (intro exI [of _ 0]) simp
  qed
qed

lemma generate_summary_prefix:
  assumes "content \<noteq> []"
  shows "\<exists>k. accepted max_length (sentences content) k
      \<and> (k < length (sentences content) \<longrightarrow> \<not> accepted max_length (sentences content) (Suc k))
      \<and> generate_summary content max_length = ensure_period (py_join ''. '' (take k (sentences content)))"
proof -
  let ?ps = "re_split rx_terminators content"
  from summary_loop_prefix [of ?ps "[]" 0 max_length] obtain k where k: "k \<le> length ?ps"
    "summary_loop ?ps [] 0 max_length = take k (map py_strip ?ps)"
    "\<forall>i<k. map py_strip ?ps ! i \<noteq> []
           \<and> int (sum_list (map length (take (Suc i) (map py_strip ?ps)))) < max_length"
    "k < length ?ps \<longrightarrow> map py_strip ?ps ! k = []
        \<or> \<not> int (sum_list (map length (take (Suc k) (map py_strip ?ps)))) < max_length"
    by auto
  have a: "accepted max_length (sentences content) k"
    using k(1,3) by (simp add: accepted_def sentences_def)
  have b: "k < length (sentences content) \<longrightarrow> \<not> accepted max_length (sentences content) (Suc k)"
    using k(4) by (auto simp: accepted_def sentences_def)
  have "generate_summary content max_length = ensure_period (py_join ''. '' (take k (sentences content)))"
    using assms k(2) by (simp add: generate_summary_def sentences_def)
  with a b show ?thesis by blast
qed

lemma ensure_period_last: "ensure_period s \<noteq> [] \<Longrightarrow> last (ensure_period s) = CHR ''.''"
  by (auto simp: ensure_period_def split: if_splits)

lemma py_slice_length: "length (py_slice i j xs) \<le> j - i"
  by (simp add: py_slice_def)

lemma split_from_total:
  "start \<le> i \<Longrightarrow> sum_list (map length (split_from r s start i)) \<le> length s - start"
proof (induction r s start i rule: split_from.induct)
  case (1 r s start i)
  show ?case
  proof (cases "length s \<le> i")
    case True
    then show ?thesis
      by (subst split_from.simps) (simp add: py_slice_def)
  next
    case False
    show ?thesis
    proof (cases "rx_match r s i")
      case None
      have "sum_list (map length (split_from r s start (Suc i))) \<le> length s - start"
        using "1.IH"(1) [OF False None] "1.prems" by simp
      then show ?thesis using False None by (subst split_from.simps) simp
    next
      case (Some j)
      show ?thesis
      proof (cases "i < j")
        case True
        have "sum_list (map length (split_from r s j j)) \<le> length s - j"
          using "1.IH"(2) [OF False Some True] by simp
        moreover have "length (py_slice start i s) \<le> i - start" by (rule py_slice_length)
        ultimately have "sum_list (map length (py_slice start i s # split_from r s j j)) \<le> length s - start"
          using True False "1.prems" by simp
        then show ?thesis using False Some True by (subst split_from.simps) simp
      next
        case nj: False
        have "sum_list (map length (split_from r s start (Suc i))) \<le> length s - start"
          using "1.IH"(3) [OF False Some nj] "1.prems" by simp
        then show ?thesis using False Some nj by (subst split_from.simps) simp
      qed
    qed
  qed
qed

lemma py_strip_length: "length (py_strip s) \<le> length s"
proof -
  have "length (dropWhile is_space (rev (dropWhile is_space s))) \<le> length (rev (dropWhile is_space s))"
    by (rule length_dropWhile_le)
  also have "\<dots> \<le> length s" by (simp add: length_dropWhile_le)
  finally show ?thesis by (simp add: py_strip_def)
qed

lemma sentences_total: "sum_list (map length (sentences content)) \<le> length content"
proof -
  have "sum_list (map length (map py_strip ps)) \<le> sum_list (map length ps)" for ps
    by (induction ps) (auto intro: add_mono py_strip_length)
  from this [of "re_split rx_terminators content"]
    split_from_total [of 0 0 rx_terminators content]
  show ?thesis by (simp add: sentences_def re_split_def)
qed

lemma take_total: "sum_list (map length (take k ss)) \<le> sum_list (map length (ss :: string list))"
proof -
  have "sum_list (map length ss) = sum_list (map length (take k ss)) + sum_list (map length (drop k ss))"
    by (metis append_take_drop_id map_append sum_list_append)
  then show ?thesis by simp
qed

lemma short_content_all_sentences:
  assumes short: "int (length content) < max_length"
    and inner: "\<forall>s\<in>set (butlast (sentences content)). s \<noteq> []"
    and ne: "content \<noteq> []"
  shows "generate_summary content max_length
      = ensure_period (py_join ''. '' (filter (\<lambda>s. s \<noteq> []) (sentences content)))"
proof -
  let ?ss = "sentences content"
  from generate_summary_prefix [OF ne, of max_length] obtain k
    where acc: "accepted max_length ?ss k"
      and stop: "k < length ?ss \<longrightarrow> \<not> accepted max_length ?ss (Suc k)"
      and res: "generate_summary content max_length = ensure_period (py_join ''. '' (take k ?ss))"
    by blast
  have fits: "int (sum_list (map length (take (Suc i) ?ss))) < max_length" for i
    using take_total [of "Suc i" ?ss] sentences_total [of content] short by linarith
  have kl: "k \<le> length ?ss" and nonempty: "\<forall>i<k. ?ss ! i \<noteq> []"
    using acc by (simp_all add: accepted_def)
  have "take k ?ss = filter (\<lambda>s. s \<noteq> []) ?ss"
  proof (cases "k < length ?ss")
    case False
    with kl have "k = length ?ss" by simp
    with nonempty have "\<forall>s\<in>set ?ss. s \<noteq> []" by (metis in_set_conv_nth)
    then have "filter (\<lambda>s. s \<noteq> []) ?ss = ?ss" by simp
    with \<open>k = length ?ss\<close> show ?thesis by simp
  next
    case True
    with stop have "\<not> accepted max_length ?ss (Suc k)" by simp
    then have empty_k: "?ss ! k = []"
      using True acc fits by (auto simp: accepted_def less_Suc_eq)
    have nz: "?ss \<noteq> []" using True by auto
    have "k = length ?ss - 1"
    proof (rule ccontr)
      assume "k \<noteq> length ?ss - 1"
      with True have "k < length (butlast ?ss)" by simp
      then have "butlast ?ss ! k \<in> set (butlast ?ss)" by (rule nth_mem)
      moreover have "butlast ?ss ! k = ?ss ! k" using \<open>k < length (butlast ?ss)\<close> by (simp add: nth_butlast)
      ultimately show False using inner empty_k by metis
    qed
    then have tk: "take k ?ss = butlast ?ss" by (simp add: butlast_conv_take)
    have "last ?ss = []" using empty_k \<open>k = length ?ss - 1\<close> nz by (simp add: last_conv_nth)
    then have "?ss = butlast ?ss @ [[]]" using nz by (metis append_butlast_last_id)
    then have "filter (\<lambda>s. s \<noteq> []) ?ss = filter (\<lambda>s. s \<noteq> []) (butlast ?ss)"
      by (metis (mono_tags, lifting) append_Nil2 filter.simps(1) filter.simps(2) filter_append)
    also have "\<dots> = butlast ?ss" using inner by simp
    finally show ?thesis using tk by simp
  qed
  with res show ?thesis by simp
qed

text \<open>
  C5, as stated, fails on the code: the loop also stops at the first piece that is empty after
  trimming, whatever the budget. The content \<open>!Hi\<close> is shorter than the budget and splits
  into an empty piece and \<open>Hi\<close>; the claim accumulates both, the code stops at the empty one
  and returns the empty summary.
\<close>

theorem summary_stops_at_empty_sentence_counterexample:
  "re_split rx_terminators ''!Hi'' = [[], ''Hi'']
   \<and> int (length ''!Hi'') < 300
   \<and> generate_summary ''!Hi'' 300 = []
   \<and> summary_spec ''!Hi'' 300 = ''. Hi.''
   \<and> generate_summary ''!Hi'' 300 \<noteq> summary_spec ''!Hi'' 300"
  by code_simp

text \<open>
  C5 (amended): summary generation splits the content on runs of \<open>.\<close>, \<open>!\<close>, \<open>?\<close>, trims
  each piece, and accumulates pieces while they are non-empty and the running character total
  stays under the budget, stopping at the first piece that is empty or does not fit; it joins
  the accumulated pieces with a period and a space and appends a trailing period if missing,
  so a non-empty summary ends with a period. Empty content yields the empty string. Content
  shorter than the budget in which no piece but the last is empty is returned whole: its
  non-empty pieces joined, with a trailing period.
\<close>

theorem generate_summary_accumulates:
  "generate_summary [] max_length = []
   \<and> (content \<noteq> [] \<longrightarrow>
        (\<exists>k. accepted max_length (sentences content) k
           \<and> (k < length (sentences content) \<longrightarrow> \<not> accepted max_length (sentences content) (Suc k))
           \<and> generate_summary content max_length
               = ensure_period (py_join ''. '' (take k (sentences content)))))
   \<and> (generate_summary content max_length \<noteq> [] \<longrightarrow>
        last (generate_summary content max_length) = CHR ''.'')
   \<and> (int (length content) < max_length \<and> (\<forall>s\<in>set (butlast (sentences content)). s \<noteq> []) \<longrightarrow>
        generate_summary content max_length
          = ensure_period (py_join ''. '' (filter (\<lambda>s. s \<noteq> []) (sentences content))))"
proof (intro conjI impI)
  show "generate_summary [] max_length = []" by (simp add: generate_summary_def)
next
  assume "content \<noteq> []"
  then show "\<exists>k. accepted max_length (sentences content) k
           \<and> (k < length (sentences content) \<longrightarrow> \<not> accepted max_length (sentences content) (Suc k))
           \<and> generate_summary content max_length
               = ensure_period (py_join ''. '' (take k (sentences content)))"
    by (rule generate_summary_prefix)
next
  assume "generate_summary content max_length \<noteq> []"
  then show "last (generate_summary content max_length) = CHR ''.''"
    by (auto simp: generate_summary_def ensure_period_last split: if_splits)
next
  assume h: "int (length content) < max_length \<and> (\<forall>s\<in>set (butlast (sentences content)). s \<noteq> [])"
  show "generate_summary content max_length
          = ensure_period (py_join ''. '' (filter (\<lambda>s. s \<noteq> []) (sentences content)))"
  proof (cases "content = []")
    case True
    have "sentences [] = [[]]" by code_simp
    with True show ?thesis by (simp add: generate_summary_def ensure_period_def)
  next
    case False
    with h show ?thesis by (intro short_content_all_sentences) simp_all
  qed
qed

theorem generate_summary_accumulates_witness:
  "''Hello world.  This is it! Really?'' \<noteq> []
   \<and> sentences ''Hello world.  This is it! Really?'' = [''Hello world'', ''This is it'', ''Really'', []]
   \<and> int (length ''Hello world.  This is it! Really?'') < 300
   \<and> butlast (sentences ''Hello world.  This is it! Really?'') = [''Hello world'', ''This is it'', ''Really'']
   \<and> generate_summary ''Hello world.  This is it! Really?'' 300 = ''Hello world. This is it. Really.''
   \<and> last (generate_summary ''Hello world.  This is it! Really?'' 300) = CHR ''.''
   \<and> generate_summary ''abc. defg. hi'' 7 = ''abc.''"
proof -
  have s: "sentences ''Hello world.  This is it! Really?'' = [''Hello world'', ''This is it'', ''Really'', []]"
    by code_simp
  have g: "generate_summary ''Hello world.  This is it! Really?'' 300 = ''Hello world. This is it. Really.''"
    "generate_summary ''abc. defg. hi'' 7 = ''abc.''"
    by code_simp+
  have h: "int (length ''Hello world.  This is it! Really?'') < 300
      \<and> (\<forall>s\<in>set (butlast (sentences ''Hello world.  This is it! Really?'')). s \<noteq> [])"
    unfolding s by simp
  show ?thesis
    using s g h generate_summary_accumulates [of 300 "''Hello world.  This is it! Really?''"]
    by simp
qed

section \<open>Title cleanup (C8)\<close>

lemma star_iter_sym:
  "a \<le> length s \<Longrightarrow>
   set (star_iter (rx_ends (Sym P) s) n a)
     = {b. a \<le> b \<and> b \<le> a + n \<and> b \<le> length s \<and> (\<forall>k. a \<le> k \<and> k < b \<longrightarrow> P (s ! k))}"
proof (induction n arbitrary: a)
  case 0
  then show ?case by auto
next
  case (Suc n)
  show ?case
  proof (cases "a < length s \<and> P (s ! a)")
    case True
    then have st: "star_iter (rx_ends (Sym P) s) (Suc n) a
        = star_iter (rx_ends (Sym P) s) n (Suc a) @ [a]" by simp
    have "Suc a \<le> length s" using True by simp
    from Suc.IH [OF this] have ih: "set (star_iter (rx_ends (Sym P) s) n (Suc a))
        = {b. Suc a \<le> b \<and> b \<le> Suc a + n \<and> b \<le> length s \<and> (\<forall>k. Suc a \<le> k \<and> k < b \<longrightarrow> P (s ! k))}" .
    show ?thesis
    proof (intro set_eqI iffI)
      fix b assume "b \<in> set (star_iter (rx_ends (Sym P) s) (Suc n) a)"
      then have "b = a \<or> (Suc a \<le> b \<and> b \<le> Suc a + n \<and> b \<le> length s
          \<and> (\<forall>k. Suc a \<le> k \<and> k < b \<longrightarrow> P (s ! k)))"
        using st ih by auto
      then show "b \<in> {b. a \<le> b \<and> b \<le> a + Suc n \<and> b \<le> length s \<and> (\<forall>k. a \<le> k \<and> k < b \<longrightarrow> P (s ! k))}"
      proof
        assume "b = a" then show ?thesis using Suc.prems by auto
      next
        assume r: "Suc a \<le> b \<and> b \<le> Suc a + n \<and> b \<le> length s
          \<and> (\<forall>k. Suc a \<le> k \<and> k < b \<longrightarrow> P (s ! k))"
        have "\<forall>k. a \<le> k \<and> k < b \<longrightarrow> P (s ! k)"
        proof (intro allI impI)
          fix k assume k: "a \<le> k \<and> k < b"
          show "P (s ! k)"
          proof (cases "k = a")
            case True with \<open>a < length s \<and> P (s ! a)\<close> show ?thesis by simp
          next
            case False with k r show ?thesis by simp
          qed
        qed
        with r show ?thesis by simp
      qed
    next
      fix b assume "b \<in> {b. a \<le> b \<and> b \<le> a + Suc n \<and> b \<le> length s \<and> (\<forall>k. a \<le> k \<and> k < b \<longrightarrow> P (s ! k))}"
      then have b: "a \<le> b" "b \<le> a + Suc n" "b \<le> length s" "\<forall>k. a \<le> k \<and> k < b \<longrightarrow> P (s ! k)" by simp_all
      show "b \<in> set (star_iter (rx_ends (Sym P) s) (Suc n) a)"
      proof (cases "b = a")
        case True then show ?thesis using st by simp
      next
        case False
        with b have "Suc a \<le> b \<and> b \<le> Suc a + n \<and> b \<le> length s
          \<and> (\<forall>k. Suc a \<le> k \<and> k < b \<longrightarrow> P (s ! k))" by simp
        then show ?thesis using st ih by simp
      qed
    qed
  next
    case False
    then have st: "star_iter (rx_ends (Sym P) s) (Suc n) a = [a]" by auto
    have rhs: "{b. a \<le> b \<and> b \<le> a + Suc n \<and> b \<le> length s \<and> (\<forall>k. a \<le> k \<and> k < b \<longrightarrow> P (s ! k))} = {a}"
    proof (intro set_eqI iffI)
      fix b assume "b \<in> {b. a \<le> b \<and> b \<le> a + Suc n \<and> b \<le> length s \<and> (\<forall>k. a \<le> k \<and> k < b \<longrightarrow> P (s ! k))}"
      then have b: "a \<le> b" "b \<le> length s" "\<forall>k. a \<le> k \<and> k < b \<longrightarrow> P (s ! k)" by simp_all
      have "b = a"
      proof (rule ccontr)
        assume "b \<noteq> a"
        with b have "a < b" by simp
        with b have "a < length s" "P (s ! a)" by simp_all
        with False show False by simp
      qed
      then show "b \<in> {a}" by simp
    next
      fix b assume "b \<in> {a}"
      then show "b \<in> {b. a \<le> b \<and> b \<le> a + Suc n \<and> b \<le> length s \<and> (\<forall>k. a \<le> k \<and> k < b \<longrightarrow> P (s ! k))}"
        using Suc.prems by auto
    qed
    show ?thesis unfolding st rhs by simp
  qed
qed

lemma star_sym_ends:
  "a \<le> length s \<Longrightarrow>
   set (rx_ends (Star (Sym P)) s a)
     = {b. a \<le> b \<and> b \<le> length s \<and> (\<forall>k. a \<le> k \<and> k < b \<longrightarrow> P (s ! k))}"
  by (auto simp: star_iter_sym)

lemma fragment_ends: "j \<in> set (rx_ends rx_fragment s i) \<longleftrightarrow> fragment_at s i j"
proof (cases "i < length s \<and> is_upper (s ! i)")
  case True
  then have len: "Suc i \<le> length s" by simp
  have "set (rx_ends rx_fragment s i)
      = (\<Union>b\<in>set (rx_ends (Star (Sym (\<lambda>c. c \<noteq> CHR ''.''))) s (Suc i)).
            set (rx_ends (Sym (\<lambda>c. c \<in> set ''.!?'')) s b))"
    using True by (auto simp: rx_fragment_def)
  also have "\<dots> = {j. \<exists>b. Suc i \<le> b \<and> b < length s \<and> (\<forall>k. Suc i \<le> k \<and> k < b \<longrightarrow> s ! k \<noteq> CHR ''.'')
        \<and> s ! b \<in> set ''.!?'' \<and> j = Suc b}"
    unfolding star_sym_ends [OF len] by (auto split: if_splits)
  finally have e: "set (rx_ends rx_fragment s i) = {j. \<exists>b. Suc i \<le> b \<and> b < length s
        \<and> (\<forall>k. Suc i \<le> k \<and> k < b \<longrightarrow> s ! k \<noteq> CHR ''.'') \<and> s ! b \<in> set ''.!?'' \<and> j = Suc b}" .
  show ?thesis
  proof
    assume "j \<in> set (rx_ends rx_fragment s i)"
    with e obtain b where b: "Suc i \<le> b" "b < length s"
      "\<forall>k. Suc i \<le> k \<and> k < b \<longrightarrow> s ! k \<noteq> CHR ''.''" "s ! b \<in> set ''.!?''" "j = Suc b" by auto
    then show "fragment_at s i j" using True by (auto simp: fragment_at_def)
  next
    assume f: "fragment_at s i j"
    then obtain b where jb: "j = Suc b" by (cases j) (auto simp: fragment_at_def)
    with f have "Suc i \<le> b \<and> b < length s \<and> (\<forall>k. Suc i \<le> k \<and> k < b \<longrightarrow> s ! k \<noteq> CHR ''.'')
        \<and> s ! b \<in> set ''.!?''" by (auto simp: fragment_at_def)
    with jb e show "j \<in> set (rx_ends rx_fragment s i)" by blast
  qed
next
  case False
  then have "rx_ends rx_fragment s i = []" by (auto simp: rx_fragment_def)
  moreover have "\<not> fragment_at s i j" using False by (auto simp: fragment_at_def)
  ultimately show ?thesis by simp
qed

lemma rx_match_None: "rx_match r s i = None \<longleftrightarrow> rx_ends r s i = []"
  by (simp add: rx_match_def split: list.splits)

lemma rx_match_Some: "rx_match r s i = Some j \<Longrightarrow> j \<in> set (rx_ends r s i)"
  by (auto simp: rx_match_def split: list.splits)

lemma search_from_Some:
  "search_from r s i = Some (a, j) \<Longrightarrow> i \<le> a \<and> a \<le> length s \<and> j \<in> set (rx_ends r s a)"
proof (induction r s i rule: search_from.induct)
  case (1 r s i)
  show ?case
  proof (cases "rx_match r s i")
    case None
    with "1.prems" have le: "\<not> length s < i" and rec: "search_from r s (Suc i) = Some (a, j)"
      by (subst (asm) search_from.simps; simp split: if_splits)+
    from "1.IH" [OF le None rec] show ?thesis by simp
  next
    case (Some j')
    with "1.prems" have "\<not> length s < i" "a = i" "j = j'"
      by (subst (asm) search_from.simps; simp split: if_splits)+
    with Some rx_match_Some show ?thesis by fastforce
  qed
qed

lemma search_from_None:
  "search_from r s i = None \<Longrightarrow> i \<le> a \<Longrightarrow> a \<le> length s \<Longrightarrow> rx_ends r s a = []"
proof (induction r s i rule: search_from.induct)
  case (1 r s i)
  have le: "\<not> length s < i" using "1.prems" by simp
  show ?case
  proof (cases "rx_match r s i")
    case None
    with "1.prems"(1) le have rec: "search_from r s (Suc i) = None"
      by (subst (asm) search_from.simps) simp
    show ?thesis
    proof (cases "a = i")
      case True
      with None show ?thesis by (simp add: rx_match_None)
    next
      case False
      with "1.prems" have "Suc i \<le> a" by simp
      from "1.IH" [OF le None rec this "1.prems"(3)] show ?thesis .
    qed
  next
    case (Some j')
    with "1.prems"(1) le show ?thesis by (subst (asm) search_from.simps) simp
  qed
qed

lemma search_from_leftmost:
  "search_from r s i = Some (a, j) \<Longrightarrow>
     rx_match r s a = Some j \<and> (\<forall>k. i \<le> k \<and> k < a \<longrightarrow> rx_ends r s k = [])"
proof (induction r s i rule: search_from.induct)
  case (1 r s i)
  show ?case
  proof (cases "rx_match r s i")
    case None
    with "1.prems" have le: "\<not> length s < i" and rec: "search_from r s (Suc i) = Some (a, j)"
      by (subst (asm) search_from.simps; simp split: if_splits)+
    from "1.IH" [OF le None rec]
    have m: "rx_match r s a = Some j" and ih: "\<forall>k. Suc i \<le> k \<and> k < a \<longrightarrow> rx_ends r s k = []"
      by blast+
    have "\<forall>k. i \<le> k \<and> k < a \<longrightarrow> rx_ends r s k = []"
    proof (intro allI impI)
      fix k assume k: "i \<le> k \<and> k < a"
      show "rx_ends r s k = []"
      proof (cases "k = i")
        case True
        with None show ?thesis by (simp add: rx_match_None)
      next
        case False
        with k have "Suc i \<le> k \<and> k < a" by simp
        with ih show ?thesis by blast
      qed
    qed
    with m show ?thesis by blast
  next
    case (Some j')
    with "1.prems" have "a = i" "j = j'"
      by (subst (asm) search_from.simps; simp split: if_splits)+
    with Some show ?thesis by auto
  qed
qed

lemma star_iter_sym_descending:
  "a \<le> length s \<Longrightarrow> sorted_wrt (\<lambda>x y. y < x) (star_iter (rx_ends (Sym P) s) n a)"
proof (induction n arbitrary: a)
  case 0
  then show ?case by simp
next
  case (Suc n)
  show ?case
  proof (cases "a < length s \<and> P (s ! a)")
    case True
    then have st: "star_iter (rx_ends (Sym P) s) (Suc n) a
        = star_iter (rx_ends (Sym P) s) n (Suc a) @ [a]" by simp
    have len: "Suc a \<le> length s" using True by simp
    have above: "\<forall>x \<in> set (star_iter (rx_ends (Sym P) s) n (Suc a)). a < x"
      unfolding star_iter_sym [OF len] by simp
    show ?thesis unfolding st sorted_wrt_append
    proof (intro conjI ballI)
      show "sorted_wrt (\<lambda>x y. y < x) (star_iter (rx_ends (Sym P) s) n (Suc a))"
        by (rule Suc.IH [OF len])
      show "sorted_wrt (\<lambda>x y. y < x) [a]" by simp
    next
      fix x y
      assume "x \<in> set (star_iter (rx_ends (Sym P) s) n (Suc a))" "y \<in> set [a]"
      with above show "y < x" by simp
    qed
  next
    case False
    then have st: "star_iter (rx_ends (Sym P) s) (Suc n) a = [a]" by auto
    show ?thesis unfolding st by simp
  qed
qed

lemma concat_map_single:
  "concat (map (\<lambda>b. if Q b then [g b] else []) xs) = map g (filter Q xs)"
  by (induction xs) simp_all

lemma fragment_ends_descending: "sorted_wrt (\<lambda>x y. y < x) (rx_ends rx_fragment s i)"
proof (cases "i < length s \<and> is_upper (s ! i)")
  case True
  then have len: "Suc i \<le> length s" by simp
  let ?Q = "\<lambda>b. b < length s \<and> s ! b \<in> set ''.!?''"
  have step: "rx_ends (Sym (\<lambda>c. c \<in> set ''.!?'')) s = (\<lambda>b. if ?Q b then [Suc b] else [])"
    by (rule ext) simp
  have "rx_ends rx_fragment s i
      = concat (map (rx_ends (Sym (\<lambda>c. c \<in> set ''.!?'')) s)
          (star_iter (rx_ends (Sym (\<lambda>c. c \<noteq> CHR ''.'')) s) (length s - Suc i) (Suc i)))"
    using True by (simp add: rx_fragment_def)
  also have "\<dots> = concat (map (\<lambda>b. if ?Q b then [Suc b] else [])
          (star_iter (rx_ends (Sym (\<lambda>c. c \<noteq> CHR ''.'')) s) (length s - Suc i) (Suc i)))"
    by (simp only: step)
  also have "\<dots> = map Suc (filter ?Q
          (star_iter (rx_ends (Sym (\<lambda>c. c \<noteq> CHR ''.'')) s) (length s - Suc i) (Suc i)))"
    by (rule concat_map_single)
  finally have e: "rx_ends rx_fragment s i = map Suc (filter ?Q
          (star_iter (rx_ends (Sym (\<lambda>c. c \<noteq> CHR ''.'')) s) (length s - Suc i) (Suc i)))" .
  have "sorted_wrt (\<lambda>x y. y < x) (filter ?Q
          (star_iter (rx_ends (Sym (\<lambda>c. c \<noteq> CHR ''.'')) s) (length s - Suc i) (Suc i)))"
    by (rule sorted_wrt_filter) (rule star_iter_sym_descending [OF len])
  then show ?thesis unfolding e by (simp add: sorted_wrt_map)
next
  case False
  then have "rx_ends rx_fragment s i = []" by (auto simp: rx_fragment_def)
  then show ?thesis by simp
qed

lemma fragment_match_longest:
  assumes "rx_match rx_fragment s i = Some j" and "fragment_at s i j'"
  shows "j' \<le> j"
proof -
  from assms(1) obtain rest where e: "rx_ends rx_fragment s i = j # rest"
    by (auto simp: rx_match_def split: list.splits)
  from assms(2) have "j' \<in> set (rx_ends rx_fragment s i)" by (simp add: fragment_ends)
  moreover have "\<forall>y \<in> set rest. y < j"
    using fragment_ends_descending [of s i] unfolding e by simp
  ultimately show ?thesis unfolding e by auto
qed

lemma fragment_search_Some:
  assumes "re_search rx_fragment s = Some frag"
  shows "\<exists>i j. fragment_at s i j
           \<and> (\<forall>i' j'. fragment_at s i' j' \<longrightarrow> i \<le> i')
           \<and> (\<forall>j'. fragment_at s i j' \<longrightarrow> j' \<le> j)
           \<and> frag = py_slice i j s"
proof -
  from assms obtain i j where f: "search_from rx_fragment s 0 = Some (i, j)"
    and fr: "frag = py_slice i j s"
    by (auto simp: re_search_def)
  from search_from_Some [OF f] have "j \<in> set (rx_ends rx_fragment s i)" by simp
  then have at: "fragment_at s i j" by (simp add: fragment_ends)
  from search_from_leftmost [OF f]
  have m: "rx_match rx_fragment s i = Some j"
    and before: "\<forall>k. 0 \<le> k \<and> k < i \<longrightarrow> rx_ends rx_fragment s k = []" by blast+
  have left: "\<forall>i' j'. fragment_at s i' j' \<longrightarrow> i \<le> i'"
  proof (intro allI impI)
    fix i' j' assume a: "fragment_at s i' j'"
    show "i \<le> i'"
    proof (rule ccontr)
      assume "\<not> i \<le> i'"
      then have "rx_ends rx_fragment s i' = []" using before by simp
      moreover from a have "j' \<in> set (rx_ends rx_fragment s i')" by (simp add: fragment_ends)
      ultimately show False by simp
    qed
  qed
  have long: "\<forall>j'. fragment_at s i j' \<longrightarrow> j' \<le> j"
    using fragment_match_longest [OF m] by blast
  from at left long fr show ?thesis by blast
qed

lemma fragment_search_None:
  "re_search rx_fragment s = None \<longleftrightarrow> \<not> (\<exists>i j. fragment_at s i j)"
proof
  assume "re_search rx_fragment s = None"
  then have n: "search_from rx_fragment s 0 = None" by (simp add: re_search_def)
  show "\<not> (\<exists>i j. fragment_at s i j)"
  proof
    assume "\<exists>i j. fragment_at s i j"
    then obtain i j where f: "fragment_at s i j" by blast
    then have "i \<le> length s" by (simp add: fragment_at_def)
    from search_from_None [OF n _ this] have "rx_ends rx_fragment s i = []" by simp
    moreover from f have "j \<in> set (rx_ends rx_fragment s i)" by (simp add: fragment_ends)
    ultimately show False by simp
  qed
next
  assume no: "\<not> (\<exists>i j. fragment_at s i j)"
  show "re_search rx_fragment s = None"
  proof (cases "re_search rx_fragment s")
    case None then show ?thesis .
  next
    case (Some frag)
    from fragment_search_Some [OF this] no show ?thesis by blast
  qed
qed

text \<open>
  C8, as stated, fails on the code: the fragment is searched in the cleaned title, because
  the source has overwritten the variable \<open>title\<close> by then. In \<open>Ok.css\<close> the first removal
  rule deletes \<open>.css\<close>; the cleaned title \<open>Ok\<close> holds no fragment and the code keeps it,
  although the original title holds the fragment \<open>Ok.\<close> (its first three characters),
  which the claim recovers.
\<close>

theorem fragment_of_original_title_not_recovered_counterexample:
  "strip_artifacts ''Ok.css'' = ''Ok''
   \<and> length (strip_artifacts ''Ok.css'') < 10
   \<and> fragment_at ''Ok.css'' 0 3
   \<and> py_slice 0 3 ''Ok.css'' = ''Ok.''
   \<and> re_search rx_fragment ''Ok.css'' = Some ''Ok.''
   \<and> re_search rx_fragment ''Ok'' = None
   \<and> clean_title ''Ok.css'' = ''Ok''
   \<and> clean_title_spec ''Ok.css'' = ''Ok.''
   \<and> clean_title ''Ok.css'' \<noteq> clean_title_spec ''Ok.css''"
proof -
  have f: "fragment_at ''Ok.css'' 0 3" by (simp add: fragment_at_def is_upper_def)
  have r: "strip_artifacts ''Ok.css'' = ''Ok''
   \<and> length (strip_artifacts ''Ok.css'') < 10
   \<and> py_slice 0 3 ''Ok.css'' = ''Ok.''
   \<and> re_search rx_fragment ''Ok.css'' = Some ''Ok.''
   \<and> re_search rx_fragment ''Ok'' = None
   \<and> clean_title ''Ok.css'' = ''Ok''
   \<and> clean_title_spec ''Ok.css'' = ''Ok.''
   \<and> clean_title ''Ok.css'' \<noteq> clean_title_spec ''Ok.css''" by code_simp
  from f r show ?thesis by simp
qed

text \<open>
  C8 (amended): for every title whose cleaned form (after the four removal rules, the
  whitespace collapse and the trim) is under 10 characters, title cleanup searches the cleaned
  title for a capitalised sentence fragment ending in \<open>.\<close>, \<open>!\<close> or \<open>?\<close>. When the
  cleaned title holds such a fragment, the result is the one that starts at the leftmost
  capital letter that starts any fragment and, from there, is the longest; when it holds
  none, the result is the short cleaned title.
\<close>

theorem clean_title_short:
  assumes "length (strip_artifacts title') < 10"
  shows "((\<exists>i j. fragment_at (strip_artifacts title') i j) \<longrightarrow>
           (\<exists>i j. fragment_at (strip_artifacts title') i j
              \<and> (\<forall>i' j'. fragment_at (strip_artifacts title') i' j' \<longrightarrow> i \<le> i')
              \<and> (\<forall>j'. fragment_at (strip_artifacts title') i j' \<longrightarrow> j' \<le> j)
              \<and> clean_title title' = py_slice i j (strip_artifacts title')))
       \<and> (\<not> (\<exists>i j. fragment_at (strip_artifacts title') i j) \<longrightarrow>
           clean_title title' = strip_artifacts title')"
proof (cases "title' = []")
  case True
  have "strip_artifacts [] = []" by code_simp
  moreover have "\<not> (\<exists>i j. fragment_at [] i j)" by (simp add: fragment_at_def)
  ultimately show ?thesis using True by (simp add: clean_title_def)
next
  case False
  let ?t = "strip_artifacts title'"
  have c: "clean_title title' = (case re_search rx_fragment ?t of Some frag \<Rightarrow> frag | None \<Rightarrow> ?t)"
    using False assms by (simp add: clean_title_def Let_def)
  show ?thesis
  proof (cases "re_search rx_fragment ?t")
    case None
    then show ?thesis using c fragment_search_None [of ?t] by simp
  next
    case (Some frag)
    from fragment_search_Some [OF Some] obtain i j
      where ij: "fragment_at ?t i j" "\<forall>i' j'. fragment_at ?t i' j' \<longrightarrow> i \<le> i'"
        "\<forall>j'. fragment_at ?t i j' \<longrightarrow> j' \<le> j" "frag = py_slice i j ?t" by blast
    from c Some ij(4) have "clean_title title' = py_slice i j ?t" by simp
    with ij(1-3) show ?thesis by blast
  qed
qed

theorem clean_title_short_witness:
  "length (strip_artifacts ''Flex A! B? c'') < 10
   \<and> strip_artifacts ''Flex A! B? c'' = ''A! B? c''
   \<and> fragment_at ''A! B? c'' 0 2
   \<and> fragment_at ''A! B? c'' 0 5
   \<and> fragment_at ''A! B? c'' 3 5
   \<and> clean_title ''Flex A! B? c'' = py_slice 0 5 ''A! B? c''
   \<and> clean_title ''Flex A! B? c'' = ''A! B?''
   \<and> length (strip_artifacts ''Flexible Min'') < 10
   \<and> clean_title ''Flexible Min'' = ''Flexible''"
proof -
  have a: "strip_artifacts ''Flex A! B? c'' = ''A! B? c''" by code_simp
  have b: "strip_artifacts ''Flexible Min'' = ''Flexible''" by code_simp
  have f: "fragment_at ''A! B? c'' 0 2" "fragment_at ''A! B? c'' 0 5" "fragment_at ''A! B? c'' 3 5"
    by (simp_all add: fragment_at_def is_upper_def nth_Cons')
  have c: "clean_title ''Flex A! B? c'' = ''A! B?''" "clean_title ''Flexible Min'' = ''Flexible''"
    "py_slice 0 5 ''A! B? c'' = ''A! B?''"
    by code_simp+
  have la: "length (strip_artifacts ''Flex A! B? c'') < 10" using a by simp
  have lb: "length (strip_artifacts ''Flexible Min'') < 10" using b by simp
  show ?thesis
    using a b c f la lb clean_title_short [OF la] clean_title_short [OF lb] by simp
qed
section \<open>Statistics (C9)\<close>

lemma map_of_dict_set: "map_of (dict_set d k v) = (map_of d)(k \<mapsto> v)"
  by (induction d) (auto simp: fun_eq_iff)

lemma keys_dict_set_present: "k \<in> set (map fst d) \<Longrightarrow> map fst (dict_set d k v) = map fst d"
  by (induction d) force+

lemma keys_dict_set_absent: "k \<notin> set (map fst d) \<Longrightarrow> map fst (dict_set d k v) = map fst d @ [k]"
  by (induction d) auto

lemma keys_dict_set:
  "map fst (dict_set d k v) = (if k \<in> set (map fst d) then map fst d else map fst d @ [k])"
  using keys_dict_set_present [of k d v] keys_dict_set_absent [of k d v] by presburger

lemma keys_bump: "map fst (bump d k) = (if k \<in> set (map fst d) then map fst d else map fst d @ [k])"
  by (simp add: bump_def keys_dict_set)

lemma map_of_bump:
  "map_of (bump d k) = (map_of d)(k \<mapsto> (case map_of d k of None \<Rightarrow> 0 | Some n \<Rightarrow> n) + 1)"
  by (simp add: bump_def map_of_dict_set dict_get_def)

lemma tally_keys_set: "set (map fst (foldl bump [] ks)) = set ks"
  by (induction ks rule: rev_induct) (auto simp: keys_bump)

lemma tally_keys_distinct: "distinct (map fst (foldl bump [] ks))"
  by (induction ks rule: rev_induct) (auto simp: keys_bump)

lemma tally_counts:
  "map_of (foldl bump [] ks) k = (if k \<in> set ks then Some (count_list ks k) else None)"
proof (induction ks rule: rev_induct)
  case Nil
  then show ?case by simp
next
  case (snoc x xs)
  then show ?case by (auto simp: map_of_bump)
qed

lemma tally_item: "(k, n) \<in> set (foldl bump [] ks) \<Longrightarrow> k \<in> set ks \<and> n = count_list ks k"
proof -
  assume a: "(k, n) \<in> set (foldl bump [] ks)"
  then have "map_of (foldl bump [] ks) k = Some n"
    using tally_keys_distinct [of ks] by simp
  then show ?thesis by (simp add: tally_counts split: if_splits)
qed

lemma tally_order:
  "d \<in> set ks \<Longrightarrow>
   set (takeWhile (\<lambda>x. x \<noteq> d) (map fst (foldl bump [] ks))) = set (takeWhile (\<lambda>x. x \<noteq> d) ks)"
proof (induction ks rule: rev_induct)
  case Nil
  then show ?case by simp
next
  case (snoc k ks)
  let ?K = "map fst (foldl bump [] ks)"
  have keys: "map fst (foldl bump [] (ks @ [k])) = (if k \<in> set ks then ?K else ?K @ [k])"
    using tally_keys_set [of ks] by (simp add: keys_bump)
  show ?case
  proof (cases "d \<in> set ks")
    case True
    then have dK: "d \<in> set ?K" using tally_keys_set [of ks] by simp
    have "takeWhile (\<lambda>x. x \<noteq> d) (?K @ [k]) = takeWhile (\<lambda>x. x \<noteq> d) ?K"
      using dK by (simp add: takeWhile_append1)
    moreover have "takeWhile (\<lambda>x. x \<noteq> d) (ks @ [k]) = takeWhile (\<lambda>x. x \<noteq> d) ks"
      using True by (simp add: takeWhile_append1)
    ultimately show ?thesis using snoc.IH [OF True] keys by simp
  next
    case False
    with snoc.prems have dk: "d = k" by simp
    have nK: "k \<notin> set ?K" using False dk tally_keys_set [of ks] by simp
    have "takeWhile (\<lambda>x. x \<noteq> k) (?K @ [k]) = ?K @ takeWhile (\<lambda>x. x \<noteq> k) [k]"
      by (rule takeWhile_append2) (use nK in auto)
    then have "takeWhile (\<lambda>x. x \<noteq> k) (?K @ [k]) = ?K" by simp
    moreover have "takeWhile (\<lambda>x. x \<noteq> k) (ks @ [k]) = ks @ takeWhile (\<lambda>x. x \<noteq> k) [k]"
      by (rule takeWhile_append2) (use False dk in auto)
    then have "takeWhile (\<lambda>x. x \<noteq> k) (ks @ [k]) = ks" by simp
    ultimately show ?thesis using keys False dk tally_keys_set [of ks] by simp
  qed
qed

lemma max_scan_split:
  "\<exists>pre post. best # xs = pre @ max_scan best xs # post
     \<and> (\<forall>y\<in>set pre. snd y < snd (max_scan best xs))
     \<and> (\<forall>y\<in>set post. snd y \<le> snd (max_scan best xs))"
proof (induction xs arbitrary: best)
  case Nil
  show ?case by (intro exI [of _ "[]"]) simp
next
  case (Cons x xs)
  show ?case
  proof (cases "snd best < snd x")
    case True
    from Cons.IH [of x] obtain pre post where s: "x # xs = pre @ max_scan x xs # post"
      and lt: "\<forall>y\<in>set pre. snd y < snd (max_scan x xs)"
      and le: "\<forall>y\<in>set post. snd y \<le> snd (max_scan x xs)" by blast
    have "x \<in> set pre \<or> x = max_scan x xs"
      using s by (cases pre) auto
    then have "snd x \<le> snd (max_scan x xs)" using lt by auto
    then have b: "snd best < snd (max_scan x xs)" using True by simp
    have m: "max_scan best (x # xs) = max_scan x xs" using True by simp
    have "best # x # xs = (best # pre) @ max_scan x xs # post" using s by simp
    with b lt le show ?thesis unfolding m
      by (intro exI [of _ "best # pre"] exI [of _ post]) simp
  next
    case False
    have m: "max_scan best (x # xs) = max_scan best xs" using False by simp
    from Cons.IH [of best] obtain pre post where s: "best # xs = pre @ max_scan best xs # post"
      and lt: "\<forall>y\<in>set pre. snd y < snd (max_scan best xs)"
      and le: "\<forall>y\<in>set post. snd y \<le> snd (max_scan best xs)" by blast
    show ?thesis
    proof (cases pre)
      case Nil
      with s have "max_scan best xs = best" "post = xs" by auto
      with le False show ?thesis unfolding m
        by (intro exI [of _ "[]"] exI [of _ "x # xs"]) auto
    next
      case (Cons p pre')
      with s have p: "p = best" and t: "xs = pre' @ max_scan best xs # post" by auto
      have "snd best < snd (max_scan best xs)" using lt Cons p by simp
      then have "snd x < snd (max_scan best xs)" using False by simp
      have "best # x # xs = (best # x # pre') @ max_scan best xs # post" using t by simp
      moreover have "\<forall>y\<in>set (best # x # pre'). snd y < snd (max_scan best xs)"
        using lt Cons p \<open>snd x < snd (max_scan best xs)\<close> by simp
      ultimately show ?thesis unfolding m using le
        by (intro exI [of _ "best # x # pre'"] exI [of _ post]) blast
    qed
  qed
qed

lemma most_common_tally:
  assumes "ks \<noteq> []"
  shows "\<exists>d. most_common (foldl bump [] ks) = Some d \<and> first_max ks d"
proof -
  let ?C = "foldl bump [] ks"
  have "set (map fst ?C) \<noteq> {}" using assms tally_keys_set [of ks] by simp
  then obtain x xs where C: "?C = x # xs" by (cases ?C) auto
  let ?r = "max_scan x xs"
  from max_scan_split [of x xs] obtain pre post where s: "x # xs = pre @ ?r # post"
    and lt: "\<forall>y\<in>set pre. snd y < snd ?r"
    and le: "\<forall>y\<in>set post. snd y \<le> snd ?r" by blast
  obtain d n where r: "?r = (d, n)" by (cases ?r) auto
  have split: "?C = pre @ (d, n) # post" using C s r by simp
  then have "(d, n) \<in> set ?C" by simp
  from tally_item [OF this] have d_in: "d \<in> set ks" and n: "n = count_list ks d" by simp_all
  have le_all: "\<forall>y\<in>set ks. count_list ks y \<le> count_list ks d"
  proof
    fix y assume "y \<in> set ks"
    then have "map_of ?C y = Some (count_list ks y)" by (simp add: tally_counts)
    then have "(y, count_list ks y) \<in> set ?C" by (rule map_of_SomeD)
    then have "(y, count_list ks y) \<in> set pre \<or> (y, count_list ks y) = (d, n)
        \<or> (y, count_list ks y) \<in> set post" using split by auto
    then show "count_list ks y \<le> count_list ks d" using lt le r n by fastforce
  qed
  have dist: "distinct (map fst pre @ d # map fst post)"
    using tally_keys_distinct [of ks] split by simp
  then have "d \<notin> set (map fst pre)" by auto
  then have "takeWhile (\<lambda>x. x \<noteq> d) (map fst pre @ d # map fst post)
      = map fst pre @ takeWhile (\<lambda>x. x \<noteq> d) (d # map fst post)"
    by (intro takeWhile_append2) auto
  then have "takeWhile (\<lambda>x. x \<noteq> d) (map fst ?C) = map fst pre"
    using split by simp
  with tally_order [OF d_in] have pre_set: "set (takeWhile (\<lambda>x. x \<noteq> d) ks) = set (map fst pre)"
    by simp
  have lt_pre: "\<forall>y\<in>set (takeWhile (\<lambda>x. x \<noteq> d) ks). count_list ks y < count_list ks d"
  proof
    fix y assume "y \<in> set (takeWhile (\<lambda>x. x \<noteq> d) ks)"
    then obtain c where yc: "(y, c) \<in> set pre" using pre_set by auto
    then have "(y, c) \<in> set ?C" using split by simp
    from tally_item [OF this] have "c = count_list ks y" by simp
    with lt yc r n show "count_list ks y < count_list ks d" by fastforce
  qed
  have "most_common ?C = Some d" using C r by (simp add: most_common_def)
  with d_in le_all lt_pre show ?thesis by (auto simp: first_max_def)
qed

lemma count_sources_domains:
  "fst (count_sources srcs (ds, au, ys)) = foldl bump ds (map domain srcs)"
  by (induction srcs arbitrary: ds au ys) auto

lemma count_sources_authors:
  "fst (snd (count_sources srcs (ds, au, ys))) = foldl bump au (map author srcs)"
  by (induction srcs arbitrary: ds au ys) auto

lemma statistics_fields:
  "domains (get_source_statistics m) = foldl bump [] (registered_domains m)
   \<and> authors (get_source_statistics m) = foldl bump [] (registered_authors m)
   \<and> most_common_domain (get_source_statistics m) = most_common (foldl bump [] (registered_domains m))
   \<and> most_common_author (get_source_statistics m) = most_common (foldl bump [] (registered_authors m))"
proof -
  obtain ds au ys where c: "count_sources (dict_values (sources m)) ([], [], []) = (ds, au, ys)"
    by (cases "count_sources (dict_values (sources m)) ([], [], [])") auto
  have "ds = foldl bump [] (registered_domains m)"
    using count_sources_domains [of "dict_values (sources m)" "[]" "[]" "[]"] c
    by (simp add: registered_domains_def)
  moreover have "au = foldl bump [] (registered_authors m)"
    using count_sources_authors [of "dict_values (sources m)" "[]" "[]" "[]"] c
    by (simp add: registered_authors_def)
  ultimately show ?thesis using c by (simp add: get_source_statistics_def)
qed

text \<open>
  C9: for every registry with at least one source, \<open>most_common_domain\<close> and
  \<open>most_common_author\<close> are the first maximum of the registered domains and authors: a value
  with the maximum occurrence count such that every value first encountered before it has a
  strictly smaller count, and the reported count is the number of occurrences. Ties are
  therefore broken by insertion order; in the witness the winner \<open>Zed\<close> ties with \<open>Amy\<close>,
  which is smaller lexicographically.
\<close>

theorem most_common_is_first_maximum:
  assumes "sources m \<noteq> []"
  shows "\<exists>d a. most_common_domain (get_source_statistics m) = Some d
           \<and> first_max (registered_domains m) d
           \<and> dict_get (domains (get_source_statistics m)) d = Some (count_list (registered_domains m) d)
           \<and> most_common_author (get_source_statistics m) = Some a
           \<and> first_max (registered_authors m) a
           \<and> dict_get (authors (get_source_statistics m)) a = Some (count_list (registered_authors m) a)"
proof -
  have nd: "registered_domains m \<noteq> []" and na: "registered_authors m \<noteq> []"
    using assms by (simp_all add: registered_domains_def registered_authors_def dict_values_def)
  from most_common_tally [OF nd] obtain d
    where d: "most_common (foldl bump [] (registered_domains m)) = Some d"
      "first_max (registered_domains m) d" by blast
  from most_common_tally [OF na] obtain a
    where a: "most_common (foldl bump [] (registered_authors m)) = Some a"
      "first_max (registered_authors m) a" by blast
  have "d \<in> set (registered_domains m)" "a \<in> set (registered_authors m)"
    using d a by (simp_all add: first_max_def)
  then have "dict_get (foldl bump [] (registered_domains m)) d = Some (count_list (registered_domains m) d)"
    "dict_get (foldl bump [] (registered_authors m)) a = Some (count_list (registered_authors m) a)"
    by (simp_all add: dict_get_def tally_counts)
  with d a show ?thesis using statistics_fields [of m] by auto
qed

theorem most_common_is_first_maximum_witness:
  "sources tie_registry \<noteq> []
   \<and> registered_authors tie_registry = [''Zed'', ''Amy'', ''Amy'', ''Zed'']
   \<and> authors (get_source_statistics tie_registry) = [(''Zed'', 2), (''Amy'', 2)]
   \<and> most_common_author (get_source_statistics tie_registry) = Some ''Zed''
   \<and> most_common_domain (get_source_statistics tie_registry) = Some ''zeta.org''
   \<and> first_max (registered_authors tie_registry) ''Zed''
   \<and> first_max (registered_domains tie_registry) ''zeta.org''"
proof -
  have h: "sources tie_registry \<noteq> []" by (simp add: tie_registry_def)
  have au: "registered_authors tie_registry = [''Zed'', ''Amy'', ''Amy'', ''Zed'']"
    by (simp add: tie_registry_def registered_authors_def dict_values_def)
  have st: "authors (get_source_statistics tie_registry) = [(''Zed'', 2), (''Amy'', 2)]"
    "most_common_author (get_source_statistics tie_registry) = Some ''Zed''"
    "most_common_domain (get_source_statistics tie_registry) = Some ''zeta.org''"
    by code_simp+
  show ?thesis
    using h au st most_common_is_first_maximum [OF h] by auto
qed

section \<open>The extraction coordinator (C1, C3, C6)\<close>

lemma bracket_netloc: "urlparse_netloc ''http://['' = Inl (ValueError ''Invalid IPv6 URL'')"
  by code_simp

lemma metadata_raises:
  "urlparse_netloc url' = Inl e \<Longrightarrow> extract_metadata_from_html env html url' = Inl e"
  by (simp add: extract_metadata_from_html_def)

lemma metadata_domain:
  "urlparse_netloc url' = Inr d \<Longrightarrow>
   \<exists>md. extract_metadata_from_html env html url' = Inr md \<and> meta_domain md = d"
  by (simp add: extract_metadata_from_html_def Let_def)

lemma metadata_fields:
  "urlparse_netloc url' = Inr d \<Longrightarrow>
   \<exists>md. extract_metadata_from_html env html url' = Inr md \<and> meta_domain md = d
      \<and> meta_error md = None"
  by (simp add: extract_metadata_from_html_def Let_def)

lemma generate_summary_empty: "generate_summary [] n = []"
  by (simp add: generate_summary_def)

lemma newspaper_raises:
  "urlparse_netloc url' = Inl e \<Longrightarrow> fst (extract_with_newspaper env url' w) = None"
  by (simp add: extract_with_newspaper_def split: prod.splits sum.splits)

lemma readability_raises:
  "urlparse_netloc url' = Inl e \<Longrightarrow> fst (extract_with_readability env url' w) = None"
  by (simp add: extract_with_readability_def metadata_raises split: prod.splits sum.splits)

lemma beautifulsoup_raises:
  "urlparse_netloc url' = Inl e \<Longrightarrow> fst (extract_with_beautifulsoup env url' w) = Inl e"
  by (simp add: extract_with_beautifulsoup_def beautifulsoup_failed_def metadata_raises Let_def
        split: prod.splits sum.splits)

lemma try_raises:
  assumes "urlparse_netloc url' = Inl e"
  shows "fst (extract_content_try env url' max_length w) = Inl e"
proof -
  obtain r1 w1 where n: "extract_with_newspaper env url' w = (r1, w1)"
    by (cases "extract_with_newspaper env url' w") auto
  obtain r2 w2 where r: "extract_with_readability env url' w1 = (r2, w2)"
    by (cases "extract_with_readability env url' w1") auto
  obtain r3 w3 where b: "extract_with_beautifulsoup env url' w2 = (r3, w3)"
    by (cases "extract_with_beautifulsoup env url' w2") auto
  have "r1 = None" using newspaper_raises [OF assms, of env w] n by simp
  moreover have "r2 = None" using readability_raises [OF assms, of env w1] r by simp
  moreover have "r3 = Inl e" using beautifulsoup_raises [OF assms, of env w2] b by simp
  ultimately show ?thesis using n r b by (simp add: extract_content_try_def usable_def)
qed

lemma extract_content_raises:
  assumes "urlparse_netloc url' = Inl e"
  shows "fst (extract_content env url' max_length w) = Inl e"
proof -
  obtain r w1 where t: "extract_content_try env url' max_length w = (r, w1)"
    by (cases "extract_content_try env url' max_length w") auto
  have "r = Inl e" using try_raises [OF assms, of env max_length w] t by simp
  then show ?thesis using t assms by (simp add: extract_content_def)
qed

lemma format_result_ok:
  assumes "urlparse_netloc url' = Inr d"
  shows "\<exists>doc w1. format_result env r url' max_length w = (Inr doc, w1)
      \<and> doc_url doc = url' \<and> doc_title doc = res_title r \<and> doc_summary doc = res_summary r
      \<and> doc_content doc = truncate_content (res_content r) max_length
      \<and> doc_metadata doc = res_metadata r \<and> w1 = snd (now_isoformat env w)"
  using assms by (simp add: format_result_def Let_def split: prod.splits)

lemma newspaper_domain:
  "extract_with_newspaper env url' w = (Some r, w1) \<Longrightarrow> urlparse_netloc url' = Inr d \<Longrightarrow>
   meta_domain (res_metadata r) = d"
  by (auto simp: extract_with_newspaper_def split: prod.splits sum.splits)

lemma readability_domain:
  "extract_with_readability env url' w = (Some r, w1) \<Longrightarrow> urlparse_netloc url' = Inr d \<Longrightarrow>
   meta_domain (res_metadata r) = d"
proof -
  assume run: "extract_with_readability env url' w = (Some r, w1)" and net: "urlparse_netloc url' = Inr d"
  obtain p w0 where page: "readability_page env url' w = (p, w0)"
    by (cases "readability_page env url' w") auto
  show ?thesis
  proof (cases p)
    case (Inl e)
    with run page show ?thesis by (simp add: extract_with_readability_def)
  next
    case (Inr x)
    from metadata_domain [OF net, of env "rp_html x"] obtain md
      where "extract_metadata_from_html env (rp_html x) url' = Inr md" "meta_domain md = d" by blast
    with run page Inr show ?thesis by (auto simp: extract_with_readability_def)
  qed
qed

lemma beautifulsoup_domain:
  assumes "urlparse_netloc url' = Inr d"
  shows "\<exists>r w1. extract_with_beautifulsoup env url' w = (Inr r, w1) \<and> meta_domain (res_metadata r) = d"
proof (cases "soup_page env url' w")
  case (Pair p w1)
  show ?thesis
  proof (cases p)
    case (Inl e)
    with Pair assms show ?thesis
      by (simp add: extract_with_beautifulsoup_def beautifulsoup_failed_def)
  next
    case (Inr page)
    from metadata_domain [OF assms, of env "sp_html page"] obtain md
      where "extract_metadata_from_html env (sp_html page) url' = Inr md" "meta_domain md = d"
      by blast
    with Pair Inr show ?thesis
      by (simp add: extract_with_beautifulsoup_def Let_def)
  qed
qed

lemma try_returns:
  assumes "urlparse_netloc url' = Inr d"
  shows "\<exists>doc w1. extract_content_try env url' max_length w = (Inr doc, w1)
      \<and> doc_url doc = url' \<and> meta_domain (doc_metadata doc) = d"
proof -
  obtain r1 w1 where n: "extract_with_newspaper env url' w = (r1, w1)"
    by (cases "extract_with_newspaper env url' w") auto
  obtain r2 w2 where r: "extract_with_readability env url' w1 = (r2, w2)"
    by (cases "extract_with_readability env url' w1") auto
  from beautifulsoup_domain [OF assms, of env w2] obtain r3 w3
    where b: "extract_with_beautifulsoup env url' w2 = (Inr r3, w3)"
      and b_dom: "meta_domain (res_metadata r3) = d" by blast
  show ?thesis
  proof (cases "usable r1")
    case True
    then obtain x where x: "r1 = Some x" by (cases r1) (auto simp: usable_def)
    from newspaper_domain [OF n [unfolded x] assms] have "meta_domain (res_metadata x) = d" .
    with format_result_ok [OF assms, of env x max_length w1] True n x show ?thesis
      by (auto simp: extract_content_try_def)
  next
    case u1: False
    show ?thesis
    proof (cases "usable r2")
      case True
      then obtain x where x: "r2 = Some x" by (cases r2) (auto simp: usable_def)
      from readability_domain [OF r [unfolded x] assms] have "meta_domain (res_metadata x) = d" .
      with format_result_ok [OF assms, of env x max_length w2] True u1 n r x show ?thesis
        by (auto simp: extract_content_try_def)
    next
      case False
      with format_result_ok [OF assms, of env r3 max_length w3] u1 n r b b_dom show ?thesis
        by (auto simp: extract_content_try_def)
    qed
  qed
qed

lemma extract_content_returns:
  assumes "urlparse_netloc url' = Inr d"
  shows "\<exists>doc w1. extract_content env url' max_length w = (Inr doc, w1)
      \<and> doc_url doc = url' \<and> meta_domain (doc_metadata doc) = d"
proof -
  from try_returns [OF assms, of env max_length w] obtain doc w1
    where "extract_content_try env url' max_length w = (Inr doc, w1)"
      "doc_url doc = url'" "meta_domain (doc_metadata doc) = d" by blast
  then show ?thesis by (simp add: extract_content_def)
qed

lemma example_org_netloc: "urlparse_netloc ''https://example.com/a'' = Inr ''example.com''"
  by code_simp

lemma truncate_empty: "0 \<le> max_length \<Longrightarrow> truncate_content [] max_length = []"
  by (simp add: truncate_content_def)

lemma extract_loop_returns:
  assumes "\<forall>u\<in>set urls. \<exists>d. urlparse_netloc u = Inr d"
  shows "\<exists>res w1. extract_loop env urls n acc w = (Inr res, w1)
      \<and> set (dict_keys res) = set (dict_keys acc) \<union> set urls
      \<and> (\<forall>u\<in>set urls. \<exists>doc. dict_get res u = Some doc \<and> doc_url doc = u)
      \<and> (\<forall>k. k \<notin> set urls \<longrightarrow> dict_get res k = dict_get acc k)"
  using assms
proof (induction urls arbitrary: acc w)
  case Nil
  show ?case by simp
next
  case (Cons u rest)
  from Cons.prems obtain d where d: "urlparse_netloc u = Inr d" by auto
  from extract_content_returns [OF d, of env n w] obtain doc w1
    where first: "extract_content env u n w = (Inr doc, w1)" and du: "doc_url doc = u" by blast
  let ?acc = "dict_set acc u doc"
  from Cons.prems have rest_ok: "\<forall>v\<in>set rest. \<exists>d. urlparse_netloc v = Inr d" by simp
  from Cons.IH [OF rest_ok, of ?acc w1] obtain res w2
    where loop: "extract_loop env rest n ?acc w1 = (Inr res, w2)"
      and keys: "set (dict_keys res) = set (dict_keys ?acc) \<union> set rest"
      and entries: "\<forall>v\<in>set rest. \<exists>doc. dict_get res v = Some doc \<and> doc_url doc = v"
      and kept: "\<forall>k. k \<notin> set rest \<longrightarrow> dict_get res k = dict_get ?acc k"
    by blast
  have run: "extract_loop env (u # rest) n acc w = (Inr res, w2)"
    using first loop by simp
  have k2: "set (dict_keys res) = set (dict_keys acc) \<union> set (u # rest)"
    using keys by (auto simp: dict_keys_def keys_dict_set)
  have acc_u: "dict_get ?acc u = Some doc" by (simp add: dict_get_def map_of_dict_set)
  have e2: "\<forall>v\<in>set (u # rest). \<exists>doc. dict_get res v = Some doc \<and> doc_url doc = v"
  proof
    fix v assume v: "v \<in> set (u # rest)"
    show "\<exists>doc. dict_get res v = Some doc \<and> doc_url doc = v"
    proof (cases "v \<in> set rest")
      case True
      with entries show ?thesis by blast
    next
      case False
      with v have "v = u" by simp
      with False kept acc_u du show ?thesis by simp
    qed
  qed
  have kp: "\<forall>k. k \<notin> set (u # rest) \<longrightarrow> dict_get res k = dict_get acc k"
    using kept by (simp add: dict_get_def map_of_dict_set)
  from run k2 e2 kp show ?case by blast
qed

lemma extract_multiple_urls_returns:
  assumes "\<forall>u\<in>set urls. \<exists>d. urlparse_netloc u = Inr d"
  shows "\<exists>res w1. extract_multiple_urls env urls n w = (Inr res, w1)
      \<and> set (dict_keys res) = set urls
      \<and> (\<forall>u\<in>set urls. \<exists>doc. dict_get res u = Some doc \<and> doc_url doc = u)"
  using extract_loop_returns [OF assms, of env n "[]" w]
  by (auto simp: extract_multiple_urls_def dict_keys_def)

text \<open>
  C1: for every URL that \<open>urlparse\<close> accepts, \<open>extract_content\<close> returns one document whose
  \<open>metadata.domain\<close> is the network location of the URL (\<open>extract_content_returns\<close>). It
  does not hold for every URL string: on \<open>http://[\<close> \<open>urlparse\<close> raises \<open>ValueError\<close>, each
  strategy fails on it, the \<open>except\<close> block of the third strategy raises it again, and so
  does the \<open>except\<close> block of \<open>extract_content\<close>, which calls \<open>urlparse\<close> itself. The call
  raises, whatever the network does.
\<close>

theorem extract_content_raises_on_bracket_url:
  "fst (extract_content env ''http://['' max_length w) = Inl (ValueError ''Invalid IPv6 URL'')"
  by (rule extract_content_raises [OF bracket_netloc])

text \<open>
  C3, as stated, fails on the code: when all three strategies fail the document is the
  result of the third strategy, passed through \<open>_format_result\<close>; the \<open>except\<close> block of
  \<open>extract_content\<close> is not reached. Without network, \<open>https://example.com/a\<close> gives the
  title \<open>Extraction Failed\<close> and the extraction method \<open>beautifulsoup_failed\<close>, from the
  \<open>except\<close> block of the third strategy. On a site whose pages hold no text it gives the
  title of the page, \<open>Shop\<close>, the extraction method \<open>beautifulsoup\<close> and no
  \<open>metadata.error\<close>. Neither is \<open>Content Extraction Failed\<close> with method \<open>failed\<close>.
\<close>

theorem all_failed_document_counterexample:
  "urlparse_netloc ''https://example.com/a'' = Inr ''example.com''
   \<and> all_strategies_failed offline_env ''https://example.com/a'' 0
         (Inl (LibraryError ''Connection refused'')) 0
   \<and> map_sum id doc_title (fst (extract_content offline_env ''https://example.com/a'' 5000 0))
       = Inr ''Extraction Failed''
   \<and> map_sum id (meta_extraction_method \<circ> doc_metadata)
         (fst (extract_content offline_env ''https://example.com/a'' 5000 0))
       = Inr (Some ''beautifulsoup_failed'')
   \<and> all_strategies_failed blank_env ''https://example.com/a'' 0
         (Inr \<lparr>sp_title = Some ''Shop'', sp_text = [], sp_html = ''<title>Shop</title>''\<rparr>) 0
   \<and> map_sum id doc_title (fst (extract_content blank_env ''https://example.com/a'' 5000 0))
       = Inr ''Shop''
   \<and> map_sum id (meta_extraction_method \<circ> doc_metadata)
         (fst (extract_content blank_env ''https://example.com/a'' 5000 0))
       = Inr (Some ''beautifulsoup'')
   \<and> map_sum id (meta_error \<circ> doc_metadata)
         (fst (extract_content blank_env ''https://example.com/a'' 5000 0))
       = Inr None
   \<and> ''Extraction Failed'' \<noteq> ''Content Extraction Failed''
   \<and> ''Shop'' \<noteq> ''Content Extraction Failed''
   \<and> Some ''beautifulsoup_failed'' \<noteq> Some ''failed''
   \<and> Some ''beautifulsoup'' \<noteq> Some ''failed''"
  by code_simp

text \<open>
  C3 (amended): for every URL that \<open>urlparse\<close> accepts and on which all three strategies
  fail, and every non-negative \<open>max_length\<close>, \<open>extract_content\<close> returns a document for
  that URL with empty content. When the fetch of the third strategy raised, the document has
  the title \<open>Extraction Failed\<close>, \<open>metadata.error\<close> set to the message of that exception
  and \<open>metadata.extraction_method\<close> equal to \<open>beautifulsoup_failed\<close>. When the fetch
  returned a page, whose text is then empty after cleanup, the document has the stripped title
  of the page (\<open>No title found\<close> without a title tag), an empty summary, no
  \<open>metadata.error\<close> and \<open>metadata.extraction_method\<close> equal to \<open>beautifulsoup\<close>.
\<close>

theorem all_strategies_failed_document:
  assumes net: "urlparse_netloc url' = Inr d"
    and failed: "all_strategies_failed env url' w p w3"
    and budget: "0 \<le> max_length"
  shows "\<exists>doc w4. extract_content env url' max_length w = (Inr doc, w4)
      \<and> doc_url doc = url'
      \<and> doc_content doc = []
      \<and> meta_domain (doc_metadata doc) = d
      \<and> (case p of
            Inl e \<Rightarrow>
              doc_title doc = ''Extraction Failed''
              \<and> doc_summary doc = ''Could not extract content: '' @ exn_str e
              \<and> meta_error (doc_metadata doc) = Some (exn_str e)
              \<and> meta_extraction_method (doc_metadata doc) = Some ''beautifulsoup_failed''
          | Inr page \<Rightarrow>
              doc_title doc = (case sp_title page of Some t \<Rightarrow> py_strip t
                               | None \<Rightarrow> ''No title found'')
              \<and> doc_summary doc = []
              \<and> meta_error (doc_metadata doc) = None
              \<and> meta_extraction_method (doc_metadata doc) = Some ''beautifulsoup'')"
proof -
  obtain r1 w1 where n: "extract_with_newspaper env url' w = (r1, w1)"
    by (cases "extract_with_newspaper env url' w") auto
  obtain r2 w2 where r: "extract_with_readability env url' w1 = (r2, w2)"
    by (cases "extract_with_readability env url' w1") auto
  from failed n r have u1: "\<not> usable r1" and u2: "\<not> usable r2"
    and sp: "soup_page env url' w2 = (p, w3)"
    and third: "case extract_with_beautifulsoup env url' w2 of
                  (Inl e, w4) \<Rightarrow> True | (Inr r3, w4) \<Rightarrow> res_content r3 = []"
    by (simp_all add: all_strategies_failed_def)
  have "\<exists>r3. extract_with_beautifulsoup env url' w2 = (Inr r3, w3)
      \<and> res_content r3 = [] \<and> meta_domain (res_metadata r3) = d
      \<and> (case p of
            Inl e \<Rightarrow>
              res_title r3 = ''Extraction Failed''
              \<and> res_summary r3 = ''Could not extract content: '' @ exn_str e
              \<and> meta_error (res_metadata r3) = Some (exn_str e)
              \<and> meta_extraction_method (res_metadata r3) = Some ''beautifulsoup_failed''
          | Inr page \<Rightarrow>
              res_title r3 = (case sp_title page of Some t \<Rightarrow> py_strip t
                              | None \<Rightarrow> ''No title found'')
              \<and> res_summary r3 = []
              \<and> meta_error (res_metadata r3) = None
              \<and> meta_extraction_method (res_metadata r3) = Some ''beautifulsoup'')"
  proof (cases p)
    case (Inl e)
    with sp net show ?thesis
      by (simp add: extract_with_beautifulsoup_def beautifulsoup_failed_def)
  next
    case (Inr page)
    from metadata_fields [OF net, of env "sp_html page"] obtain md
      where md: "extract_metadata_from_html env (sp_html page) url' = Inr md"
        "meta_domain md = d" "meta_error md = None" by blast
    let ?r3 = "\<lparr>res_title = (case sp_title page of Some t \<Rightarrow> py_strip t
                                | None \<Rightarrow> ''No title found''),
                 res_summary = generate_summary (clean_text (sp_text page)) 300,
                 res_content = clean_text (sp_text page),
                 res_metadata = md\<lparr>meta_extraction_method := Some ''beautifulsoup''\<rparr>\<rparr>"
    have b: "extract_with_beautifulsoup env url' w2 = (Inr ?r3, w3)"
      using sp Inr md(1) by (simp add: extract_with_beautifulsoup_def Let_def)
    with third have empty: "clean_text (sp_text page) = []" by simp
    show ?thesis
      using b Inr md(2,3) empty by (simp add: generate_summary_empty)
  qed
  then obtain r3 where b: "extract_with_beautifulsoup env url' w2 = (Inr r3, w3)"
    and c: "res_content r3 = []" and dm: "meta_domain (res_metadata r3) = d"
    and shape: "case p of
            Inl e \<Rightarrow>
              res_title r3 = ''Extraction Failed''
              \<and> res_summary r3 = ''Could not extract content: '' @ exn_str e
              \<and> meta_error (res_metadata r3) = Some (exn_str e)
              \<and> meta_extraction_method (res_metadata r3) = Some ''beautifulsoup_failed''
          | Inr page \<Rightarrow>
              res_title r3 = (case sp_title page of Some t \<Rightarrow> py_strip t
                              | None \<Rightarrow> ''No title found'')
              \<and> res_summary r3 = []
              \<and> meta_error (res_metadata r3) = None
              \<and> meta_extraction_method (res_metadata r3) = Some ''beautifulsoup''"
    by blast
  from format_result_ok [OF net, of env r3 max_length w3] obtain doc w4
    where f: "format_result env r3 url' max_length w3 = (Inr doc, w4)"
      and fields: "doc_url doc = url'" "doc_title doc = res_title r3"
        "doc_summary doc = res_summary r3"
        "doc_content doc = truncate_content (res_content r3) max_length"
        "doc_metadata doc = res_metadata r3"
    by blast
  have t: "extract_content_try env url' max_length w = (Inr doc, w4)"
    using n r b f u1 u2 by (simp add: extract_content_try_def)
  have run: "extract_content env url' max_length w = (Inr doc, w4)"
    using t by (simp add: extract_content_def)
  have content: "doc_content doc = []"
    using fields(4) c budget by (simp add: truncate_empty)
  have final: "case p of
            Inl e \<Rightarrow>
              doc_title doc = ''Extraction Failed''
              \<and> doc_summary doc = ''Could not extract content: '' @ exn_str e
              \<and> meta_error (doc_metadata doc) = Some (exn_str e)
              \<and> meta_extraction_method (doc_metadata doc) = Some ''beautifulsoup_failed''
          | Inr page \<Rightarrow>
              doc_title doc = (case sp_title page of Some t \<Rightarrow> py_strip t
                               | None \<Rightarrow> ''No title found'')
              \<and> doc_summary doc = []
              \<and> meta_error (doc_metadata doc) = None
              \<and> meta_extraction_method (doc_metadata doc) = Some ''beautifulsoup''"
    unfolding fields(2,3,5) by (rule shape)
  from run fields(1) content dm fields(5) final show ?thesis by simp
qed

theorem all_strategies_failed_document_witness:
  "urlparse_netloc ''https://example.com/a'' = Inr ''example.com''
   \<and> all_strategies_failed offline_env ''https://example.com/a'' 0
         (Inl (LibraryError ''Connection refused'')) 0
   \<and> all_strategies_failed blank_env ''https://example.com/a'' 0
         (Inr \<lparr>sp_title = Some ''Shop'', sp_text = [], sp_html = ''<title>Shop</title>''\<rparr>) 0
   \<and> (0::int) \<le> 5000
   \<and> (\<exists>doc w4. extract_content offline_env ''https://example.com/a'' 5000 0 = (Inr doc, w4)
        \<and> doc_title doc = ''Extraction Failed''
        \<and> doc_content doc = []
        \<and> meta_error (doc_metadata doc) = Some ''Connection refused''
        \<and> meta_extraction_method (doc_metadata doc) = Some ''beautifulsoup_failed''
        \<and> meta_domain (doc_metadata doc) = ''example.com'')
   \<and> (\<exists>doc w4. extract_content blank_env ''https://example.com/a'' 5000 0 = (Inr doc, w4)
        \<and> doc_title doc = ''Shop''
        \<and> doc_content doc = []
        \<and> meta_error (doc_metadata doc) = None
        \<and> meta_extraction_method (doc_metadata doc) = Some ''beautifulsoup''
        \<and> meta_domain (doc_metadata doc) = ''example.com'')"
proof -
  have net: "urlparse_netloc ''https://example.com/a'' = Inr ''example.com''" by code_simp
  have off: "all_strategies_failed offline_env ''https://example.com/a'' 0
      (Inl (LibraryError ''Connection refused'')) 0" by code_simp
  have blank: "all_strategies_failed blank_env ''https://example.com/a'' 0
      (Inr \<lparr>sp_title = Some ''Shop'', sp_text = [], sp_html = ''<title>Shop</title>''\<rparr>) 0"
    by code_simp
  have budget: "(0::int) \<le> 5000" by simp
  have strip: "py_strip ''Shop'' = ''Shop''" by code_simp
  from all_strategies_failed_document [OF net off budget]
  have a: "\<exists>doc w4. extract_content offline_env ''https://example.com/a'' 5000 0 = (Inr doc, w4)
        \<and> doc_title doc = ''Extraction Failed''
        \<and> doc_content doc = []
        \<and> meta_error (doc_metadata doc) = Some ''Connection refused''
        \<and> meta_extraction_method (doc_metadata doc) = Some ''beautifulsoup_failed''
        \<and> meta_domain (doc_metadata doc) = ''example.com''" by auto
  from all_strategies_failed_document [OF net blank budget]
  have b: "\<exists>doc w4. extract_content blank_env ''https://example.com/a'' 5000 0 = (Inr doc, w4)
        \<and> doc_title doc = ''Shop''
        \<and> doc_content doc = []
        \<and> meta_error (doc_metadata doc) = None
        \<and> meta_extraction_method (doc_metadata doc) = Some ''beautifulsoup''
        \<and> meta_domain (doc_metadata doc) = ''example.com''" using strip by auto
  from net off blank a b show ?thesis by simp
qed

text \<open>
  C6: for every list of URLs that \<open>urlparse\<close> accepts, the batch returns a mapping with one
  entry for each input URL, keyed by it (\<open>extract_multiple_urls_returns\<close>). It does not
  hold for every list: the exception that \<open>extract_content\<close> raises on \<open>http://[\<close> leaves
  the loop, and the batch returns no mapping at all, not even the entry of the URL before.
\<close>

theorem extract_multiple_urls_aborts_on_bracket_url:
  "fst (extract_multiple_urls env [''https://example.com/a'', ''http://[''] max_length_per_url w)
     = Inl (ValueError ''Invalid IPv6 URL'')"
proof -
  from extract_content_returns [OF example_org_netloc, of env max_length_per_url w]
  obtain doc w1 where first: "extract_content env ''https://example.com/a'' max_length_per_url w = (Inr doc, w1)"
    by blast
  obtain r w2 where second: "extract_content env ''http://['' max_length_per_url w1 = (r, w2)"
    by (cases "extract_content env ''http://['' max_length_per_url w1") auto
  have "r = Inl (ValueError ''Invalid IPv6 URL'')"
    using extract_content_raises [OF bracket_netloc, of env max_length_per_url w1] second by simp
  with first second show ?thesis by (simp add: extract_multiple_urls_def)
qed

section \<open>In-text citations (C7)\<close>

lemma jane_year: "extract_year (Some ''2023-05-01'') = Some ''2023''"
  by code_simp

text \<open>
  C7, as stated, fails on the code: the Harvard form has no comma between the name and the
  year. For the source of Jane Doe, published 2023, the code prints \<open>(Jane Doe 2023)\<close> where
  the claim has \<open>(Jane Doe, 2023)\<close>.
\<close>

theorem harvard_in_text_counterexample:
  "format_in_text_citation jane_registry ''example.com_hello_world_example'' HARVARD = ''(Jane Doe 2023)''
   \<and> in_text_spec jane_registry ''example.com_hello_world_example'' HARVARD = ''(Jane Doe, 2023)''
   \<and> format_in_text_citation jane_registry ''example.com_hello_world_example'' HARVARD
       \<noteq> in_text_spec jane_registry ''example.com_hello_world_example'' HARVARD"
  by (simp add: format_in_text_citation_def in_text_spec_def jane_registry_def dict_get_def
        author_or_title_def fmt_opt_def jane_year)

text \<open>
  C7 (amended): for every registered source id, the in-text citation is
  \<open>(author-or-title, year)\<close> for APA, \<open>(author-or-title year)\<close> without a comma for Harvard,
  \<open>(author-or-title)\<close> for MLA and \<open>(id)\<close> for Chicago and IEEE; author-or-title is the author
  unless it is \<open>Unknown\<close>, and the year is the extracted year as an f-string prints it.
\<close>

theorem in_text_citation_forms:
  assumes "dict_get (sources m) source_id = Some src"
  shows "format_in_text_citation m source_id APA =
           ''('' @ author_or_title src @ '', '' @ fmt_opt (extract_year (publish_date src)) @ '')''
       \<and> format_in_text_citation m source_id HARVARD =
           ''('' @ author_or_title src @ '' '' @ fmt_opt (extract_year (publish_date src)) @ '')''
       \<and> format_in_text_citation m source_id MLA = ''('' @ author_or_title src @ '')''
       \<and> format_in_text_citation m source_id CHICAGO = ''('' @ source_id @ '')''
       \<and> format_in_text_citation m source_id IEEE = ''('' @ source_id @ '')''"
  using assms by (simp add: format_in_text_citation_def author_or_title_def)

theorem in_text_citation_forms_witness:
  "dict_get (sources jane_registry) ''example.com_hello_world_example''
     = Some (snd (hd (sources jane_registry)))
   \<and> format_in_text_citation jane_registry ''example.com_hello_world_example'' APA = ''(Jane Doe, 2023)''
   \<and> format_in_text_citation jane_registry ''example.com_hello_world_example'' HARVARD = ''(Jane Doe 2023)''
   \<and> format_in_text_citation jane_registry ''example.com_hello_world_example'' MLA = ''(Jane Doe)''
   \<and> format_in_text_citation jane_registry ''example.com_hello_world_example'' CHICAGO
        = ''(example.com_hello_world_example)''
   \<and> format_in_text_citation jane_registry ''example.com_hello_world_example'' IEEE
        = ''(example.com_hello_world_example)''"
proof -
  have h: "dict_get (sources jane_registry) ''example.com_hello_world_example''
             = Some (snd (hd (sources jane_registry)))"
    by (simp add: jane_registry_def dict_get_def)
  show ?thesis
    using h in_text_citation_forms [OF h]
    by (simp add: jane_registry_def author_or_title_def fmt_opt_def jane_year)
qed

section \<open>Unknown source identifiers (C10)\<close>

text \<open>
  C10: for a source id that is not a key of the registry, \<open>add_citation\<close> raises
  \<open>ValueError\<close> and returns the manager as it was (sources and citations unchanged), while
  \<open>format_citation\<close> and \<open>format_in_text_citation\<close> return the sentinel string
  \<open>[Source not found: <id>]\<close> in every style.
\<close>

theorem unknown_source_id:
  assumes "source_id \<notin> set (dict_keys (sources m))"
  shows "add_citation m source_id quote' page_number' section' confidence'
           = (Inl (ValueError (''Source '' @ source_id @ '' not found'')), m)
       \<and> format_citation m source_id style = ''[Source not found: '' @ source_id @ '']''
       \<and> format_in_text_citation m source_id style = ''[Source not found: '' @ source_id @ '']''"
  using dict_get_absent [OF assms]
  by (simp add: add_citation_def format_citation_def format_in_text_citation_def)

theorem unknown_source_id_witness:
  "''missing-id'' \<notin> set (dict_keys (sources jane_registry))
   \<and> add_citation jane_registry ''missing-id'' None None None 1
       = (Inl (ValueError ''Source missing-id not found''), jane_registry)
   \<and> format_citation jane_registry ''missing-id'' APA = ''[Source not found: missing-id]''
   \<and> format_in_text_citation jane_registry ''missing-id'' APA = ''[Source not found: missing-id]''"
proof -
  have h: "''missing-id'' \<notin> set (dict_keys (sources jane_registry))"
    by (simp add: jane_registry_def dict_keys_def)
  show ?thesis
    using h unknown_source_id [OF h, of None None None 1 APA] by simp
qed


end
